theory Spec2Isabelle
  imports Main "HOL-Library.Word" "HOL-Library.Char_ord" "HOL-Library.List_Lexorder"
    "HOL-Library.Multiset"
begin

section \<open>Shared types\<close>

text \<open>
  Instruction addresses (\<^verbatim>\<open>Addr\<close>) are machine words \<open>'a word\<close> of some width \<open>'a\<close>
  (the records below name the address type \<open>'w\<close>);
  \<^verbatim>\<open>PC + 4\<close> wraps around. Sizes and indices (\<^verbatim>\<open>uint32\<close>) are natural numbers:
  the only arithmetic on them is one division, which cannot overflow.
\<close>

text \<open>\<^verbatim>\<open>BPInterface\<close>: the record passed to \<^verbatim>\<open>update\<close> and returned by
  \<^verbatim>\<open>get_bp_info\<close>, built as \<^verbatim>\<open>BPInterface( PC, is_taken, target)\<close>.\<close>

record 'w BPInterface =
  pc :: "'w"
  is_taken :: bool
  target :: "'w"

datatype exit_status = EXIT_SUCCESS | EXIT_FAILURE

text \<open>
  What a call can do instead of returning: divide by zero, index a vector outside its
  bounds (both undefined behaviour in the source), or end the process through
  \<^verbatim>\<open>std::exit\<close> after writing to \<^verbatim>\<open>std::cerr\<close>.
\<close>

datatype error = DivisionByZero | OutOfBounds | ProcessExit string exit_status

section \<open>The collaborators of the table\<close>

text \<open>
  \<^verbatim>\<open>CacheTagArray\<close> (\<^verbatim>\<open>infra/cache/cache_tag_array.h\<close>) is used by \<^verbatim>\<open>BP<T>\<close> through its
  constructor and four member functions only. They are taken as a parameter: a record
  of operations on a state type \<open>'t\<close>. The two \<^verbatim>\<open>const\<close> members return no state.
\<close>

record ('t, 'w) CacheTagArray =
  cta_new :: "nat \<Rightarrow> nat \<Rightarrow> nat \<Rightarrow> nat \<Rightarrow> 't"
  cta_set :: "'t \<Rightarrow> 'w \<Rightarrow> nat"
  cta_read_no_touch :: "'t \<Rightarrow> 'w \<Rightarrow> bool \<times> nat"
  cta_read :: "'t \<Rightarrow> 'w \<Rightarrow> (bool \<times> nat) \<times> 't"
  cta_write :: "'t \<Rightarrow> 'w \<Rightarrow> nat \<times> 't"

text \<open>
  The template parameter \<^verbatim>\<open>T\<close> of \<^verbatim>\<open>BP<T>\<close> (a class of \<^verbatim>\<open>bpentry.h\<close>) is used through its
  default constructor and five member functions. It is a parameter as well.
\<close>

record ('e, 'w) BPEntry =
  entry_new :: "'e"
  entry_is_taken :: "'e \<Rightarrow> 'w \<Rightarrow> bool"
  entry_getTarget :: "'e \<Rightarrow> 'w"
  entry_reset :: "'e \<Rightarrow> 'e"
  entry_update_target :: "'e \<Rightarrow> 'w \<Rightarrow> 'e"
  entry_update :: "'e \<Rightarrow> bool \<Rightarrow> 'w \<Rightarrow> 'e"

section \<open>The prediction table \<^verbatim>\<open>BP<T>\<close>\<close>

record ('e, 't) BP =
  data :: "'e list list"
  tags :: "'t"

text \<open>\<^verbatim>\<open>data[ way][ set]\<close>: \<^verbatim>\<open>operator[]\<close> outside the vector is undefined behaviour.\<close>

definition entry_at :: "'e list list \<Rightarrow> nat \<Rightarrow> nat \<Rightarrow> error + 'e" where
  "entry_at d way st =
     (if way < length d \<and> st < length (d ! way) then Inr (d ! way ! st) else Inl OutOfBounds)"

definition entry_put :: "'e list list \<Rightarrow> nat \<Rightarrow> nat \<Rightarrow> 'e \<Rightarrow> 'e list list" where
  "entry_put d way st e = d[way := (d ! way)[st := e]]"

text \<open>The constructor: \<^verbatim>\<open>data\<close> is initialised before \<^verbatim>\<open>tags\<close>, so the division comes first.\<close>

definition BP_new ::
  "('e, 'w) BPEntry \<Rightarrow> ('t, 'w) CacheTagArray \<Rightarrow> nat \<Rightarrow> nat \<Rightarrow> nat \<Rightarrow> error + ('e, 't) BP" where
  "BP_new T C size_in_entries ways branch_ip_size_in_bits =
     (if ways = 0 then Inl DivisionByZero
      else Inr \<lparr>data = replicate ways (replicate (size_in_entries div ways) (entry_new T)),
                tags = cta_new C size_in_entries ways 4 branch_ip_size_in_bits\<rparr>)"

definition BP_is_taken ::
  "('e, 'a::len word) BPEntry \<Rightarrow> ('t, 'a word) CacheTagArray \<Rightarrow> ('e, 't) BP \<Rightarrow> 'a word \<Rightarrow> error + bool" where
  "BP_is_taken T C bp PC =
     (let (is_hit, way) = cta_read_no_touch C (tags bp) PC in
      if is_hit then
        (case entry_at (data bp) way (cta_set C (tags bp) PC) of
           Inl err \<Rightarrow> Inl err
         | Inr e \<Rightarrow> Inr (entry_is_taken T e PC))
      else Inr False)"

definition BP_get_target ::
  "('e, 'a::len word) BPEntry \<Rightarrow> ('t, 'a word) CacheTagArray \<Rightarrow> ('e, 't) BP \<Rightarrow> 'a word \<Rightarrow> error + 'a word" where
  "BP_get_target T C bp PC =
     (let (is_hit, way) = cta_read_no_touch C (tags bp) PC in
      if is_hit then
        (case BP_is_taken T C bp PC of
           Inl err \<Rightarrow> Inl err
         | Inr True \<Rightarrow>
             (case entry_at (data bp) way (cta_set C (tags bp) PC) of
                Inl err \<Rightarrow> Inl err
              | Inr e \<Rightarrow> Inr (entry_getTarget T e))
         | Inr False \<Rightarrow> Inr (PC + 4))
      else Inr (PC + 4))"

text \<open>The last statement of \<^verbatim>\<open>update\<close>: \<^verbatim>\<open>data[ way][ set].update( is_taken, target)\<close>.\<close>

definition train_at ::
  "('e, 'w) BPEntry \<Rightarrow> ('e, 't) BP \<Rightarrow> nat \<Rightarrow> nat \<Rightarrow> 'w BPInterface \<Rightarrow> error + ('e, 't) BP" where
  "train_at T bp way st bp_upd =
     (case entry_at (data bp) way st of
        Inl err \<Rightarrow> Inl err
      | Inr e \<Rightarrow>
          Inr (bp\<lparr>data := entry_put (data bp) way st
                              (entry_update T e (is_taken bp_upd) (target bp_upd))\<rparr>))"

definition BP_update ::
  "('e, 'a::len word) BPEntry \<Rightarrow> ('t, 'a word) CacheTagArray \<Rightarrow> ('e, 't) BP \<Rightarrow> 'a word BPInterface
     \<Rightarrow> error + ('e, 't) BP" where
  "BP_update T C bp bp_upd =
     (let st = cta_set C (tags bp) (pc bp_upd);
          ((is_hit, way), tags1) = cta_read C (tags bp) (pc bp_upd) in
      if \<not> is_hit then
        (let (way', tags2) = cta_write C tags1 (pc bp_upd) in
         case entry_at (data bp) way' st of
           Inl err \<Rightarrow> Inl err
         | Inr entry \<Rightarrow>
             train_at T
               (bp\<lparr>data := entry_put (data bp) way' st
                               (entry_update_target T (entry_reset T entry) (target bp_upd)),
                    tags := tags2\<rparr>)
               way' st bp_upd)
      else train_at T (bp\<lparr>tags := tags1\<rparr>) way st bp_upd)"

definition BP_get_bp_info ::
  "('e, 'a::len word) BPEntry \<Rightarrow> ('t, 'a word) CacheTagArray \<Rightarrow> ('e, 't) BP \<Rightarrow> 'a word
     \<Rightarrow> error + 'a word BPInterface" where
  "BP_get_bp_info T C bp PC =
     (case BP_is_taken T C bp PC of
        Inl err \<Rightarrow> Inl err
      | Inr t \<Rightarrow>
          (case BP_get_target T C bp PC of
             Inl err \<Rightarrow> Inl err
           | Inr g \<Rightarrow> Inr \<lparr>pc = PC, is_taken = t, target = g\<rparr>))"

text \<open>
  The single-lookup derivation the specification asks for: one \<^verbatim>\<open>read_no_touch\<close>, whose
  result backs both the direction and the target. It is compared with \<open>BP_get_bp_info\<close>.
\<close>

definition get_bp_info_single_lookup ::
  "('e, 'a::len word) BPEntry \<Rightarrow> ('t, 'a word) CacheTagArray \<Rightarrow> ('e, 't) BP \<Rightarrow> 'a word
     \<Rightarrow> error + 'a word BPInterface" where
  "get_bp_info_single_lookup T C bp PC =
     (let (is_hit, way) = cta_read_no_touch C (tags bp) PC in
      if is_hit then
        (case entry_at (data bp) way (cta_set C (tags bp) PC) of
           Inl err \<Rightarrow> Inl err
         | Inr e \<Rightarrow>
             (let t = entry_is_taken T e PC in
              Inr \<lparr>pc = PC, is_taken = t,
                   target = (if t then entry_getTarget T e else PC + 4)\<rparr>))
      else Inr \<lparr>pc = PC, is_taken = False, target = PC + 4\<rparr>)"

subsection \<open>Sequences of calls on one table\<close>

datatype 'w bp_call =
  Call_is_taken "'w"
| Call_get_target "'w"
| Call_get_bp_info "'w"
| Call_update "'w BPInterface"

text \<open>The table after a call. The three queries are \<^verbatim>\<open>const\<close> members: they return a
  value and leave the object as it is.\<close>

fun BP_call ::
  "('e, 'a::len word) BPEntry \<Rightarrow> ('t, 'a word) CacheTagArray \<Rightarrow> ('e, 't) BP \<Rightarrow> 'a word bp_call
     \<Rightarrow> error + ('e, 't) BP" where
  "BP_call T C bp (Call_is_taken PC) =
     (case BP_is_taken T C bp PC of Inl err \<Rightarrow> Inl err | Inr _ \<Rightarrow> Inr bp)"
| "BP_call T C bp (Call_get_target PC) =
     (case BP_get_target T C bp PC of Inl err \<Rightarrow> Inl err | Inr _ \<Rightarrow> Inr bp)"
| "BP_call T C bp (Call_get_bp_info PC) =
     (case BP_get_bp_info T C bp PC of Inl err \<Rightarrow> Inl err | Inr _ \<Rightarrow> Inr bp)"
| "BP_call T C bp (Call_update bp_upd) = BP_update T C bp bp_upd"

fun BP_run ::
  "('e, 'a::len word) BPEntry \<Rightarrow> ('t, 'a word) CacheTagArray \<Rightarrow> ('e, 't) BP
     \<Rightarrow> 'a word bp_call list \<Rightarrow> error + ('e, 't) BP" where
  "BP_run T C bp [] = Inr bp"
| "BP_run T C bp (c # cs) =
     (case BP_call T C bp c of Inl err \<Rightarrow> Inl err | Inr bp' \<Rightarrow> BP_run T C bp' cs)"

fun is_query :: "'w bp_call \<Rightarrow> bool" where
  "is_query (Call_update _) = False"
| "is_query _ = True"

subsection \<open>What the table relies on\<close>

text \<open>
  The contract of the address store (the specification's \<^verbatim>\<open>peek\<close>, \<^verbatim>\<open>lookup\<close>, \<^verbatim>\<open>set_index\<close>
  and \<^verbatim>\<open>insert\<close>), as far as the table needs it, for the states \<open>I\<close> the store can be in,
  \<open>W\<close> ways and \<open>S\<close> sets: coordinates are in range; the touching lookup answers
  as the peek does and changes no answer of a later peek; an insertion after a miss makes
  the address resident in the way it returns and moves no other resident address (it may
  evict some); the set of an address never changes; two resident addresses of one set are in
  different ways.
\<close>

definition store_contract ::
  "('t, 'w) CacheTagArray \<Rightarrow> ('t \<Rightarrow> bool) \<Rightarrow> nat \<Rightarrow> nat \<Rightarrow> bool" where
  "store_contract C I W S \<longleftrightarrow>
     (\<forall>t a. I t \<longrightarrow> cta_set C t a < S) \<and>
     (\<forall>t a w. I t \<longrightarrow> cta_read_no_touch C t a = (True, w) \<longrightarrow> w < W) \<and>
     (\<forall>t a. I t \<longrightarrow> fst (cta_read C t a) = cta_read_no_touch C t a) \<and>
     (\<forall>t a. I t \<longrightarrow> I (snd (cta_read C t a))) \<and>
     (\<forall>t a b. I t \<longrightarrow>
        cta_read_no_touch C (snd (cta_read C t a)) b = cta_read_no_touch C t b) \<and>
     (\<forall>t a b. I t \<longrightarrow> cta_set C (snd (cta_read C t a)) b = cta_set C t b) \<and>
     (\<forall>t a. I t \<longrightarrow> \<not> fst (cta_read_no_touch C t a) \<longrightarrow> I (snd (cta_write C t a))) \<and>
     (\<forall>t a. I t \<longrightarrow> \<not> fst (cta_read_no_touch C t a) \<longrightarrow>
        fst (cta_write C t a) < W \<and>
        cta_read_no_touch C (snd (cta_write C t a)) a = (True, fst (cta_write C t a))) \<and>
     (\<forall>t a b w. I t \<longrightarrow> \<not> fst (cta_read_no_touch C t a) \<longrightarrow> b \<noteq> a \<longrightarrow>
        cta_read_no_touch C (snd (cta_write C t a)) b = (True, w) \<longrightarrow>
        cta_read_no_touch C t b = (True, w)) \<and>
     (\<forall>t a b. I t \<longrightarrow> cta_set C (snd (cta_write C t a)) b = cta_set C t b) \<and>
     (\<forall>t a b w. I t \<longrightarrow> cta_read_no_touch C t a = (True, w) \<longrightarrow>
        cta_read_no_touch C t b = (True, w) \<longrightarrow> cta_set C t a = cta_set C t b \<longrightarrow> a = b)"

text \<open>A table whose entry array has \<open>W\<close> columns of \<open>S\<close> rows and whose store is in a state
  of \<open>I\<close>.\<close>

definition BP_inv :: "('t \<Rightarrow> bool) \<Rightarrow> nat \<Rightarrow> nat \<Rightarrow> ('e, 't) BP \<Rightarrow> bool" where
  "BP_inv I W S bp \<longleftrightarrow>
     I (tags bp) \<and> length (data bp) = W \<and> (\<forall>col \<in> set (data bp). length col = S)"

text \<open>The coordinate at which an address is resident, if it is.\<close>

definition resident ::
  "('t, 'w) CacheTagArray \<Rightarrow> ('e, 't) BP \<Rightarrow> 'w \<Rightarrow> (nat \<times> nat) option" where
  "resident C bp a =
     (let (is_hit, way) = cta_read_no_touch C (tags bp) a in
      if is_hit then Some (way, cta_set C (tags bp) a) else None)"

text \<open>A store that reports no hit when new, however it is configured.\<close>

definition store_cold :: "('t, 'w) CacheTagArray \<Rightarrow> bool" where
  "store_cold C \<longleftrightarrow>
     (\<forall>size_in_entries ways line_size bits a.
        \<not> fst (cta_read_no_touch C (cta_new C size_in_entries ways line_size bits) a))"

text \<open>The entry the table holds for an address: the one at the coordinate the store reports
  for it.\<close>

definition entry_of :: "('t, 'w) CacheTagArray \<Rightarrow> ('e, 't) BP \<Rightarrow> 'w \<Rightarrow> 'e option" where
  "entry_of C bp a =
     (case resident C bp a of
        None \<Rightarrow> None
      | Some (way, st) \<Rightarrow>
          (case entry_at (data bp) way st of Inl err \<Rightarrow> None | Inr e \<Rightarrow> Some e))"

subsection \<open>Derived notions\<close>

text \<open>The entry \<^verbatim>\<open>update\<close> leaves for the address of the event, when it trains way \<open>way\<close>:
  one training of the entry the address had, or of the reset and seeded entry.\<close>

definition trained_entry ::
  "('e, 'w) BPEntry \<Rightarrow> ('t, 'w) CacheTagArray \<Rightarrow> ('e, 't) BP \<Rightarrow> 'w BPInterface \<Rightarrow> nat \<Rightarrow> 'e" where
  "trained_entry T C bp bp_upd way =
     entry_update T
       (case entry_of C bp (pc bp_upd) of
          Some e \<Rightarrow> e
        | None \<Rightarrow>
            entry_update_target T
              (entry_reset T (data bp ! way ! cta_set C (tags bp) (pc bp_upd))) (target bp_upd))
       (is_taken bp_upd) (target bp_upd)"

text \<open>The answer of a query after a sequence of calls.\<close>

definition is_taken_after ::
  "('e, 'a::len word) BPEntry \<Rightarrow> ('t, 'a word) CacheTagArray \<Rightarrow> ('e, 't) BP
     \<Rightarrow> 'a word bp_call list \<Rightarrow> 'a word \<Rightarrow> error + bool" where
  "is_taken_after T C bp cs PC =
     (case BP_run T C bp cs of Inl err \<Rightarrow> Inl err | Inr bp' \<Rightarrow> BP_is_taken T C bp' PC)"


section \<open>An address store with least-recently-used replacement\<close>

text \<open>
  Modelled from the spec: \<^verbatim>\<open>CacheTagArray\<close> (\<^verbatim>\<open>infra/cache/cache_tag_array.h\<close>) is not among
  the sources. The specification describes it as a set-associative store with capacity,
  ways, line granularity and LRU-style eviction, offering \<^verbatim>\<open>peek\<close> (non-mutating),
  \<^verbatim>\<open>lookup\<close> (updates the replacement order), \<^verbatim>\<open>set_index\<close> and \<^verbatim>\<open>insert\<close> (may evict the
  prior occupant of the returned way and set). Here every set is a list of its ways, each
  with the address it holds (if any), from the least to the most recently used; there are
  capacity / ways sets; the set of an address is its line number (address / granularity)
  modulo the number of sets; a store without sets holds nothing. The tag width is kept
  as configured; the store compares whole addresses. A miss reports way 0, which the table
  never uses.
\<close>

record 'w lru_store =
  lru_size :: nat
  lru_ways :: nat
  lru_line_size :: nat
  lru_addr_bits :: nat
  lru_sets :: "(nat \<times> 'w option) list list"

definition lru_new :: "nat \<Rightarrow> nat \<Rightarrow> nat \<Rightarrow> nat \<Rightarrow> 'w lru_store" where
  "lru_new size_in_entries ways line_size addr_bits =
     \<lparr>lru_size = size_in_entries, lru_ways = ways, lru_line_size = line_size,
      lru_addr_bits = addr_bits,
      lru_sets = replicate (size_in_entries div ways) (map (\<lambda>w. (w, None)) [0..<ways])\<rparr>"

definition lru_set :: "'a::len word lru_store \<Rightarrow> 'a word \<Rightarrow> nat" where
  "lru_set t a =
     (if lru_sets t = [] then 0 else (unat a div lru_line_size t) mod length (lru_sets t))"

fun lookup_way :: "(nat \<times> 'w option) list \<Rightarrow> 'w \<Rightarrow> nat option" where
  "lookup_way [] a = None"
| "lookup_way ((w, k) # l) a = (if k = Some a then Some w else lookup_way l a)"

text \<open>Making way \<open>w\<close> the most recently used of its set.\<close>

definition touch :: "nat \<Rightarrow> (nat \<times> 'w option) list \<Rightarrow> (nat \<times> 'w option) list" where
  "touch w l = filter (\<lambda>x. fst x \<noteq> w) l @ filter (\<lambda>x. fst x = w) l"

definition lru_read_no_touch :: "'a::len word lru_store \<Rightarrow> 'a word \<Rightarrow> bool \<times> nat" where
  "lru_read_no_touch t a =
     (let s = lru_set t a in
      if s < length (lru_sets t) then
        (case lookup_way (lru_sets t ! s) a of
           Some w \<Rightarrow> (True, w)
         | None \<Rightarrow> (False, 0))
      else (False, 0))"

definition lru_read ::
  "'a::len word lru_store \<Rightarrow> 'a word \<Rightarrow> (bool \<times> nat) \<times> 'a word lru_store" where
  "lru_read t a =
     (let s = lru_set t a;
          (is_hit, w) = lru_read_no_touch t a in
      if is_hit then ((True, w), t\<lparr>lru_sets := (lru_sets t)[s := touch w (lru_sets t ! s)]\<rparr>)
      else ((False, w), t))"

text \<open>Insertion takes the least recently used way of the set, whatever it holds.\<close>

definition lru_write :: "'a::len word lru_store \<Rightarrow> 'a word \<Rightarrow> nat \<times> 'a word lru_store" where
  "lru_write t a =
     (let s = lru_set t a in
      if s < length (lru_sets t) then
        (case lru_sets t ! s of
           [] \<Rightarrow> (0, t)
         | (w, _) # rest \<Rightarrow> (w, t\<lparr>lru_sets := (lru_sets t)[s := rest @ [(w, Some a)]]\<rparr>))
      else (0, t))"

definition LRU :: "('a::len word lru_store, 'a word) CacheTagArray" where
  "LRU = \<lparr>cta_new = lru_new, cta_set = lru_set, cta_read_no_touch = lru_read_no_touch,
          cta_read = lru_read, cta_write = lru_write\<rparr>"

text \<open>The addresses a set holds.\<close>

definition set_keys :: "(nat \<times> 'w option) list \<Rightarrow> 'w list" where
  "set_keys l = List.map_filter snd l"

text \<open>A set of a store of \<open>W\<close> ways lists each of its ways once and holds no address
  twice.\<close>

definition set_ok :: "nat \<Rightarrow> (nat \<times> 'w option) list \<Rightarrow> bool" where
  "set_ok W l \<longleftrightarrow>
     l \<noteq> [] \<and> distinct (map fst l) \<and> (\<forall>x \<in> set l. fst x < W) \<and> distinct (set_keys l)"

text \<open>The states of a store of \<open>W\<close> ways and \<open>S\<close> sets.\<close>

definition lru_inv :: "nat \<Rightarrow> nat \<Rightarrow> 'w lru_store \<Rightarrow> bool" where
  "lru_inv W S t \<longleftrightarrow>
     0 < W \<and> 0 < S \<and> lru_ways t = W \<and> length (lru_sets t) = S \<and>
     (\<forall>l \<in> set (lru_sets t). set_ok W l)"

section \<open>Prediction entries\<close>

text \<open>
  Modelled from the spec: the entry classes of \<^verbatim>\<open>bpentry.h\<close> are not among the sources. The
  specification gives their contract (predict taken, predict target, train, reset) and one
  paragraph per algorithm; seeding (\<^verbatim>\<open>update_target\<close>) sets the target and nothing else;
  training records the target, so that the predicted target is the most recently trained
  one. The specification does not say which state is the cold one: it is a parameter
  \<open>cold\<close> of each algorithm, the state of a new entry and of an entry after \<^verbatim>\<open>reset\<close>.
\<close>

record 'w AlwaysTaken_entry =
  at_target :: "'w"

definition BPEntryAlwaysTaken :: "'w AlwaysTaken_entry \<Rightarrow> ('w AlwaysTaken_entry, 'w) BPEntry" where
  "BPEntryAlwaysTaken cold =
     \<lparr>entry_new = cold,
      entry_is_taken = (\<lambda>e PC. True),
      entry_getTarget = at_target,
      entry_reset = (\<lambda>e. cold),
      entry_update_target = (\<lambda>e t. e\<lparr>at_target := t\<rparr>),
      entry_update = (\<lambda>e taken t. e\<lparr>at_target := t\<rparr>)\<rparr>"

record 'w BackwardJumps_entry =
  bj_target :: "'w"
  bj_taken :: bool

definition BPEntryBackwardJumps ::
  "'a::len word BackwardJumps_entry \<Rightarrow> ('a word BackwardJumps_entry, 'a word) BPEntry" where
  "BPEntryBackwardJumps cold =
     \<lparr>entry_new = cold,
      entry_is_taken = (\<lambda>e PC. bj_target e \<le> PC),
      entry_getTarget = bj_target,
      entry_reset = (\<lambda>e. cold),
      entry_update_target = (\<lambda>e t. e\<lparr>bj_target := t\<rparr>),
      entry_update = (\<lambda>e taken t. e\<lparr>bj_target := t, bj_taken := taken\<rparr>)\<rparr>"

record 'w OneBit_entry =
  ob_target :: "'w"
  ob_taken :: bool

definition BPEntryOneBit :: "'w OneBit_entry \<Rightarrow> ('w OneBit_entry, 'w) BPEntry" where
  "BPEntryOneBit cold =
     \<lparr>entry_new = cold,
      entry_is_taken = (\<lambda>e PC. ob_taken e),
      entry_getTarget = ob_target,
      entry_reset = (\<lambda>e. cold),
      entry_update_target = (\<lambda>e t. e\<lparr>ob_target := t\<rparr>),
      entry_update = (\<lambda>e taken t. e\<lparr>ob_target := t, ob_taken := taken\<rparr>)\<rparr>"

text \<open>The four states of the saturating counter, from the floor to the ceiling.\<close>

datatype counter = StronglyNotTaken | WeaklyNotTaken | WeaklyTaken | StronglyTaken

fun counter_taken :: "counter \<Rightarrow> bool" where
  "counter_taken WeaklyTaken = True"
| "counter_taken StronglyTaken = True"
| "counter_taken _ = False"

fun counter_train :: "bool \<Rightarrow> counter \<Rightarrow> counter" where
  "counter_train True StronglyNotTaken = WeaklyNotTaken"
| "counter_train True WeaklyNotTaken = WeaklyTaken"
| "counter_train True WeaklyTaken = StronglyTaken"
| "counter_train True StronglyTaken = StronglyTaken"
| "counter_train False StronglyNotTaken = StronglyNotTaken"
| "counter_train False WeaklyNotTaken = StronglyNotTaken"
| "counter_train False WeaklyTaken = WeaklyNotTaken"
| "counter_train False StronglyTaken = WeaklyTaken"

text \<open>The place of a state between the floor (0) and the ceiling (3).\<close>

fun counter_level :: "counter \<Rightarrow> nat" where
  "counter_level StronglyNotTaken = 0"
| "counter_level WeaklyNotTaken = 1"
| "counter_level WeaklyTaken = 2"
| "counter_level StronglyTaken = 3"

record 'w TwoBit_entry =
  tb_target :: "'w"
  tb_state :: counter

definition BPEntryTwoBit :: "'w TwoBit_entry \<Rightarrow> ('w TwoBit_entry, 'w) BPEntry" where
  "BPEntryTwoBit cold =
     \<lparr>entry_new = cold,
      entry_is_taken = (\<lambda>e PC. counter_taken (tb_state e)),
      entry_getTarget = tb_target,
      entry_reset = (\<lambda>e. cold),
      entry_update_target = (\<lambda>e t. e\<lparr>tb_target := t\<rparr>),
      entry_update = (\<lambda>e taken t. e\<lparr>tb_target := t, tb_state := counter_train taken (tb_state e)\<rparr>)\<rparr>"

text \<open>The history register has type \<open>'h\<close>, a word of K bits: shifting a bit in drops the
  oldest one.\<close>

record ('h, 'w) Adaptive_entry =
  ad_target :: "'w"
  ad_history :: "'h"
  ad_table :: "'h \<Rightarrow> counter"

definition shift_in :: "bool \<Rightarrow> 'k::len word \<Rightarrow> 'k word" where
  "shift_in taken h = push_bit 1 h + of_bool taken"

definition BPEntryAdaptive ::
  "('k::len word, 'w) Adaptive_entry \<Rightarrow> (('k word, 'w) Adaptive_entry, 'w) BPEntry" where
  "BPEntryAdaptive cold =
     \<lparr>entry_new = cold,
      entry_is_taken = (\<lambda>e PC. counter_taken (ad_table e (ad_history e))),
      entry_getTarget = ad_target,
      entry_reset = (\<lambda>e. cold),
      entry_update_target = (\<lambda>e t. e\<lparr>ad_target := t\<rparr>),
      entry_update = (\<lambda>e taken t.
         e\<lparr>ad_target := t,
           ad_table := (ad_table e)(ad_history e := counter_train taken (ad_table e (ad_history e))),
           ad_history := shift_in taken (ad_history e)\<rparr>)\<rparr>"

section \<open>The factory\<close>

text \<open>The five instantiations of \<^verbatim>\<open>BPCreator<T>\<close> held by the map.\<close>

datatype algorithm = AlwaysTaken | BackwardJumps | OneBit | TwoBit | Adaptive2

text \<open>\<^verbatim>\<open>std::map\<close> keeps its keys in ascending order, whatever the order of the initialiser.\<close>

definition BPFactory_map :: "(string \<times> algorithm) list" where
  "BPFactory_map =
     sort_key fst
       [(''static_always_taken'', AlwaysTaken),
        (''static_backward_jumps'', BackwardJumps),
        (''dynamic_one_bit'', OneBit),
        (''dynamic_two_bit'', TwoBit),
        (''adaptive_two_level'', Adaptive2)]"

text \<open>The cold states of the five entry classes.\<close>

record 'w cold_states =
  cold_AlwaysTaken :: "'w AlwaysTaken_entry"
  cold_BackwardJumps :: "'w BackwardJumps_entry"
  cold_OneBit :: "'w OneBit_entry"
  cold_TwoBit :: "'w TwoBit_entry"
  cold_Adaptive :: "(2 word, 'w) Adaptive_entry"

text \<open>\<^verbatim>\<open>std::unique_ptr<BaseBP>\<close>: one of the five instantiations of \<^verbatim>\<open>BP<T>\<close>.\<close>

datatype ('w, 't) BaseBP =
  BP_AlwaysTaken "('w AlwaysTaken_entry, 't) BP"
| BP_BackwardJumps "('w BackwardJumps_entry, 't) BP"
| BP_OneBit "('w OneBit_entry, 't) BP"
| BP_TwoBit "('w TwoBit_entry, 't) BP"
| BP_Adaptive "((2 word, 'w) Adaptive_entry, 't) BP"

definition endl :: string where
  "endl = [CHR 0x0A]"

definition tab :: string where
  "tab = [CHR 0x09]"

definition BPCreator_create ::
  "('t, 'a::len word) CacheTagArray \<Rightarrow> 'a word cold_states \<Rightarrow> algorithm \<Rightarrow> nat \<Rightarrow> nat \<Rightarrow> nat
     \<Rightarrow> error + ('a word, 't) BaseBP" where
  "BPCreator_create C K alg size_in_entries ways branch_ip_size_in_bits =
     (case alg of
        AlwaysTaken \<Rightarrow>
          map_sum id BP_AlwaysTaken
            (BP_new (BPEntryAlwaysTaken (cold_AlwaysTaken K)) C size_in_entries ways branch_ip_size_in_bits)
      | BackwardJumps \<Rightarrow>
          map_sum id BP_BackwardJumps
            (BP_new (BPEntryBackwardJumps (cold_BackwardJumps K)) C size_in_entries ways branch_ip_size_in_bits)
      | OneBit \<Rightarrow>
          map_sum id BP_OneBit
            (BP_new (BPEntryOneBit (cold_OneBit K)) C size_in_entries ways branch_ip_size_in_bits)
      | TwoBit \<Rightarrow>
          map_sum id BP_TwoBit
            (BP_new (BPEntryTwoBit (cold_TwoBit K)) C size_in_entries ways branch_ip_size_in_bits)
      | Adaptive2 \<Rightarrow>
          map_sum id BP_Adaptive
            (BP_new (BPEntryAdaptive (cold_Adaptive K)) C size_in_entries ways branch_ip_size_in_bits))"

text \<open>What \<^verbatim>\<open>create\<close> writes to \<^verbatim>\<open>std::cerr\<close> for a name the map does not hold.\<close>

definition invalid_mode_message :: "string \<Rightarrow> string" where
  "invalid_mode_message name =
     ''ERROR. Invalid branch prediction mode '' @ name @ endl @
     ''Supported modes:'' @ endl @
     concat (map (\<lambda>map_name. tab @ fst map_name @ endl) BPFactory_map)"

definition BPFactory_create ::
  "('t, 'a::len word) CacheTagArray \<Rightarrow> 'a word cold_states \<Rightarrow> string \<Rightarrow> nat \<Rightarrow> nat \<Rightarrow> nat
     \<Rightarrow> error + ('a word, 't) BaseBP" where
  "BPFactory_create C K name size_in_entries ways branch_ip_size_in_bits =
     (case map_of BPFactory_map name of
        None \<Rightarrow> Inl (ProcessExit (invalid_mode_message name) EXIT_FAILURE)
      | Some creator \<Rightarrow> BPCreator_create C K creator size_in_entries ways branch_ip_size_in_bits)"

text \<open>The call with the default argument \<^verbatim>\<open>branch_ip_size_in_bits = 32\<close>.\<close>

definition BPFactory_create_default ::
  "('t, 'a::len word) CacheTagArray \<Rightarrow> 'a word cold_states \<Rightarrow> string \<Rightarrow> nat \<Rightarrow> nat
     \<Rightarrow> error + ('a word, 't) BaseBP" where
  "BPFactory_create_default C K name size_in_entries ways =
     BPFactory_create C K name size_in_entries ways 32"

subsection \<open>The virtual members of \<^verbatim>\<open>BaseBP\<close>\<close>

fun BaseBP_is_taken ::
  "('t, 'a::len word) CacheTagArray \<Rightarrow> 'a word cold_states \<Rightarrow> ('a word, 't) BaseBP \<Rightarrow> 'a word
     \<Rightarrow> error + bool" where
  "BaseBP_is_taken C K (BP_AlwaysTaken bp) PC =
     BP_is_taken (BPEntryAlwaysTaken (cold_AlwaysTaken K)) C bp PC"
| "BaseBP_is_taken C K (BP_BackwardJumps bp) PC =
     BP_is_taken (BPEntryBackwardJumps (cold_BackwardJumps K)) C bp PC"
| "BaseBP_is_taken C K (BP_OneBit bp) PC =
     BP_is_taken (BPEntryOneBit (cold_OneBit K)) C bp PC"
| "BaseBP_is_taken C K (BP_TwoBit bp) PC =
     BP_is_taken (BPEntryTwoBit (cold_TwoBit K)) C bp PC"
| "BaseBP_is_taken C K (BP_Adaptive bp) PC =
     BP_is_taken (BPEntryAdaptive (cold_Adaptive K)) C bp PC"

fun BaseBP_get_target ::
  "('t, 'a::len word) CacheTagArray \<Rightarrow> 'a word cold_states \<Rightarrow> ('a word, 't) BaseBP \<Rightarrow> 'a word
     \<Rightarrow> error + 'a word" where
  "BaseBP_get_target C K (BP_AlwaysTaken bp) PC =
     BP_get_target (BPEntryAlwaysTaken (cold_AlwaysTaken K)) C bp PC"
| "BaseBP_get_target C K (BP_BackwardJumps bp) PC =
     BP_get_target (BPEntryBackwardJumps (cold_BackwardJumps K)) C bp PC"
| "BaseBP_get_target C K (BP_OneBit bp) PC =
     BP_get_target (BPEntryOneBit (cold_OneBit K)) C bp PC"
| "BaseBP_get_target C K (BP_TwoBit bp) PC =
     BP_get_target (BPEntryTwoBit (cold_TwoBit K)) C bp PC"
| "BaseBP_get_target C K (BP_Adaptive bp) PC =
     BP_get_target (BPEntryAdaptive (cold_Adaptive K)) C bp PC"

fun BaseBP_get_bp_info ::
  "('t, 'a::len word) CacheTagArray \<Rightarrow> 'a word cold_states \<Rightarrow> ('a word, 't) BaseBP \<Rightarrow> 'a word
     \<Rightarrow> error + 'a word BPInterface" where
  "BaseBP_get_bp_info C K (BP_AlwaysTaken bp) PC =
     BP_get_bp_info (BPEntryAlwaysTaken (cold_AlwaysTaken K)) C bp PC"
| "BaseBP_get_bp_info C K (BP_BackwardJumps bp) PC =
     BP_get_bp_info (BPEntryBackwardJumps (cold_BackwardJumps K)) C bp PC"
| "BaseBP_get_bp_info C K (BP_OneBit bp) PC =
     BP_get_bp_info (BPEntryOneBit (cold_OneBit K)) C bp PC"
| "BaseBP_get_bp_info C K (BP_TwoBit bp) PC =
     BP_get_bp_info (BPEntryTwoBit (cold_TwoBit K)) C bp PC"
| "BaseBP_get_bp_info C K (BP_Adaptive bp) PC =
     BP_get_bp_info (BPEntryAdaptive (cold_Adaptive K)) C bp PC"

fun BaseBP_update ::
  "('t, 'a::len word) CacheTagArray \<Rightarrow> 'a word cold_states \<Rightarrow> ('a word, 't) BaseBP
     \<Rightarrow> 'a word BPInterface \<Rightarrow> error + ('a word, 't) BaseBP" where
  "BaseBP_update C K (BP_AlwaysTaken bp) bp_upd =
     map_sum id BP_AlwaysTaken (BP_update (BPEntryAlwaysTaken (cold_AlwaysTaken K)) C bp bp_upd)"
| "BaseBP_update C K (BP_BackwardJumps bp) bp_upd =
     map_sum id BP_BackwardJumps (BP_update (BPEntryBackwardJumps (cold_BackwardJumps K)) C bp bp_upd)"
| "BaseBP_update C K (BP_OneBit bp) bp_upd =
     map_sum id BP_OneBit (BP_update (BPEntryOneBit (cold_OneBit K)) C bp bp_upd)"
| "BaseBP_update C K (BP_TwoBit bp) bp_upd =
     map_sum id BP_TwoBit (BP_update (BPEntryTwoBit (cold_TwoBit K)) C bp bp_upd)"
| "BaseBP_update C K (BP_Adaptive bp) bp_upd =
     map_sum id BP_Adaptive (BP_update (BPEntryAdaptive (cold_Adaptive K)) C bp bp_upd)"

text \<open>The shape of the table behind a handle: its columns, and its store.\<close>

fun BaseBP_shape :: "('w, 't) BaseBP \<Rightarrow> nat list" where
  "BaseBP_shape (BP_AlwaysTaken bp) = map length (data bp)"
| "BaseBP_shape (BP_BackwardJumps bp) = map length (data bp)"
| "BaseBP_shape (BP_OneBit bp) = map length (data bp)"
| "BaseBP_shape (BP_TwoBit bp) = map length (data bp)"
| "BaseBP_shape (BP_Adaptive bp) = map length (data bp)"

fun BaseBP_tags :: "('w, 't) BaseBP \<Rightarrow> 't" where
  "BaseBP_tags (BP_AlwaysTaken bp) = tags bp"
| "BaseBP_tags (BP_BackwardJumps bp) = tags bp"
| "BaseBP_tags (BP_OneBit bp) = tags bp"
| "BaseBP_tags (BP_TwoBit bp) = tags bp"
| "BaseBP_tags (BP_Adaptive bp) = tags bp"



text \<open>The five names the map holds.\<close>

definition recognized_names :: "string set" where
  "recognized_names =
     {''static_always_taken'', ''static_backward_jumps'', ''dynamic_one_bit'',
      ''dynamic_two_bit'', ''adaptive_two_level''}"



subsection \<open>The state a training starts from\<close>



section \<open>A concrete table\<close>

text \<open>Cold states, a one-bit table of four entries in two ways on the store above, and a
  training event, for running the definitions.\<close>

definition cold_example :: "32 word cold_states" where
  "cold_example =
     \<lparr>cold_AlwaysTaken = \<lparr>at_target = 0\<rparr>,
      cold_BackwardJumps = \<lparr>bj_target = 0, bj_taken = False\<rparr>,
      cold_OneBit = \<lparr>ob_target = 0, ob_taken = False\<rparr>,
      cold_TwoBit = \<lparr>tb_target = 0, tb_state = WeaklyNotTaken\<rparr>,
      cold_Adaptive = \<lparr>ad_target = 0, ad_history = 0, ad_table = (\<lambda>h. WeaklyNotTaken)\<rparr>\<rparr>"

definition OneBit_example :: "(32 word OneBit_entry, 32 word) BPEntry" where
  "OneBit_example = BPEntryOneBit (cold_OneBit cold_example)"

definition table_example :: "(32 word OneBit_entry, 32 word lru_store) BP" where
  "table_example =
     \<lparr>data = replicate 2 (replicate 2 (cold_OneBit cold_example)), tags = lru_new 4 2 4 32\<rparr>"

definition upd_example :: "32 word BPInterface" where
  "upd_example = \<lparr>pc = 12, is_taken = True, target = 28\<rparr>"

text \<open>The table after the training event.\<close>

definition trained_example :: "(32 word OneBit_entry, 32 word lru_store) BP" where
  "trained_example =
     \<lparr>data = [[\<lparr>ob_target = 0, ob_taken = False\<rparr>, \<lparr>ob_target = 28, ob_taken = True\<rparr>],
              [\<lparr>ob_target = 0, ob_taken = False\<rparr>, \<lparr>ob_target = 0, ob_taken = False\<rparr>]],
      tags = \<lparr>lru_size = 4, lru_ways = 2, lru_line_size = 4, lru_addr_bits = 32,
              lru_sets = [[(0, None), (1, None)], [(1, None), (0, Some 12)]]\<rparr>\<rparr>"

text \<open>A table of one entry in one way, before and after the training event, and an event
  for another address.\<close>

definition one_slot_example :: "(32 word OneBit_entry, 32 word lru_store) BP" where
  "one_slot_example = \<lparr>data = [[cold_OneBit cold_example]], tags = lru_new 1 1 4 32\<rparr>"

definition one_slot_trained :: "(32 word OneBit_entry, 32 word lru_store) BP" where
  "one_slot_trained =
     \<lparr>data = [[\<lparr>ob_target = 28, ob_taken = True\<rparr>]],
      tags = \<lparr>lru_size = 1, lru_ways = 1, lru_line_size = 4, lru_addr_bits = 32,
              lru_sets = [[(0, Some 12)]]\<rparr>\<rparr>"

definition other_upd_example :: "32 word BPInterface" where
  "other_upd_example = \<lparr>pc = 16, is_taken = False, target = 20\<rparr>"

text \<open>A two-bit table of four entries in two ways, a not-taken event, and the table after
  three of them.\<close>

definition TwoBit_example :: "(32 word TwoBit_entry, 32 word) BPEntry" where
  "TwoBit_example = BPEntryTwoBit (cold_TwoBit cold_example)"

definition twobit_table_example :: "(32 word TwoBit_entry, 32 word lru_store) BP" where
  "twobit_table_example =
     \<lparr>data = replicate 2 (replicate 2 (cold_TwoBit cold_example)), tags = lru_new 4 2 4 32\<rparr>"

definition not_taken_example :: "32 word BPInterface" where
  "not_taken_example = \<lparr>pc = 12, is_taken = False, target = 28\<rparr>"

definition twobit_floor_example :: "(32 word TwoBit_entry, 32 word lru_store) BP" where
  "twobit_floor_example =
     \<lparr>data = [[\<lparr>tb_target = 0, tb_state = WeaklyNotTaken\<rparr>,
               \<lparr>tb_target = 28, tb_state = StronglyNotTaken\<rparr>],
              [\<lparr>tb_target = 0, tb_state = WeaklyNotTaken\<rparr>,
               \<lparr>tb_target = 0, tb_state = WeaklyNotTaken\<rparr>]],
      tags = \<lparr>lru_size = 4, lru_ways = 2, lru_line_size = 4, lru_addr_bits = 32,
              lru_sets = [[(0, None), (1, None)], [(1, None), (0, Some 12)]]\<rparr>\<rparr>"

section \<open>Accessing the entry array\<close>

lemma entry_at_put:
  "way < length d \<Longrightarrow> st < length (d ! way) \<Longrightarrow>
   entry_at (entry_put d way st e) way' st' =
     (if way' = way \<and> st' = st then Inr e else entry_at d way' st')"
  by (auto simp: entry_at_def entry_put_def nth_list_update)

lemma entry_at_Inr:
  "entry_at d way st = Inr e \<longleftrightarrow> way < length d \<and> st < length (d ! way) \<and> e = d ! way ! st"
  by (auto simp: entry_at_def)

lemma entry_at_Inl:
  "entry_at d way st = Inl err \<longleftrightarrow> \<not> (way < length d \<and> st < length (d ! way)) \<and> err = OutOfBounds"
  by (auto simp: entry_at_def)

lemma map_length_entry_put: "map length (entry_put d way st e) = map length d"
  by (simp add: entry_put_def map_update) (metis length_list_update list_update_id map_update)

lemma entry_put_put: "entry_put (entry_put d way st e) way st e' = entry_put d way st e'"
  by (cases "way < length d") (simp_all add: entry_put_def list_update_beyond)

lemma train_at_Inr:
  "entry_at (data bp) way st = Inr e \<Longrightarrow>
   train_at T bp way st bp_upd =
     Inr (bp\<lparr>data := entry_put (data bp) way st (entry_update T e (is_taken bp_upd) (target bp_upd))\<rparr>)"
  by (simp add: train_at_def)

lemma train_at_Inl: "train_at T bp way st bp_upd = Inl err \<Longrightarrow> err = OutOfBounds"
  by (auto simp: train_at_def entry_at_Inl split: sum.splits)

lemma BP_update_hit:
  assumes "cta_read C (tags bp) (pc bp_upd) = ((True, way), tags1)"
    and "entry_at (data bp) way (cta_set C (tags bp) (pc bp_upd)) = Inr e"
  shows "BP_update T C bp bp_upd =
     Inr (bp\<lparr>data := entry_put (data bp) way (cta_set C (tags bp) (pc bp_upd))
                        (entry_update T e (is_taken bp_upd) (target bp_upd)),
             tags := tags1\<rparr>)"
  using assms by (simp add: BP_update_def Let_def train_at_def)

lemma BP_update_miss:
  assumes "cta_read C (tags bp) (pc bp_upd) = ((False, way0), tags1)"
    and "cta_write C tags1 (pc bp_upd) = (way, tags2)"
    and "entry_at (data bp) way (cta_set C (tags bp) (pc bp_upd)) = Inr e"
  shows "BP_update T C bp bp_upd =
     Inr (bp\<lparr>data := entry_put (data bp) way (cta_set C (tags bp) (pc bp_upd))
                        (entry_update T (entry_update_target T (entry_reset T e) (target bp_upd))
                           (is_taken bp_upd) (target bp_upd)),
             tags := tags2\<rparr>)"
proof -
  from assms(3) have b: "way < length (data bp)"
      "cta_set C (tags bp) (pc bp_upd) < length (data bp ! way)"
    by (simp_all add: entry_at_Inr)
  show ?thesis
    using assms b by (simp add: BP_update_def Let_def train_at_def entry_at_put entry_put_put)
qed

lemma BP_update_Inl: "BP_update T C bp bp_upd = Inl err \<Longrightarrow> err = OutOfBounds"
  by (auto simp: BP_update_def Let_def entry_at_Inl split: prod.splits if_splits sum.splits dest: train_at_Inl)

lemma BP_get_target_eq:
  "BP_get_target T C bp PC =
     (case BP_is_taken T C bp PC of
        Inl err \<Rightarrow> Inl err
      | Inr t \<Rightarrow> if t then
            (case entry_at (data bp) (snd (cta_read_no_touch C (tags bp) PC)) (cta_set C (tags bp) PC) of
               Inl err \<Rightarrow> Inl err | Inr e \<Rightarrow> Inr (entry_getTarget T e))
          else Inr (PC + 4))"
  by (auto simp: BP_get_target_def BP_is_taken_def split: prod.splits sum.splits bool.splits)

section \<open>The store with least-recently-used replacement keeps the contract\<close>

lemma lookup_way_None: "lookup_way l a = None \<longleftrightarrow> Some a \<notin> snd ` set l"
  by (induction l a rule: lookup_way.induct) (auto simp: image_iff)

lemma lookup_way_Some_mem: "lookup_way l a = Some w \<Longrightarrow> (w, Some a) \<in> set l"
  by (induction l a rule: lookup_way.induct) (auto split: if_splits)

lemma set_keys_Cons:
  "set_keys ((w, k) # l) = (case k of None \<Rightarrow> set_keys l | Some a \<Rightarrow> a # set_keys l)"
  by (simp add: set_keys_def List.map_filter_simps split: option.splits)

lemma set_keys_Nil: "set_keys [] = []"
  by (simp add: set_keys_def List.map_filter_simps)

lemma set_set_keys: "a \<in> set (set_keys l) \<longleftrightarrow> Some a \<in> snd ` set l"
  by (induction l) (auto simp: set_keys_Cons set_keys_Nil image_iff split: option.splits)

lemma set_keys_append: "set_keys (l @ l') = set_keys l @ set_keys l'"
  by (simp add: set_keys_def map_filter_def)

lemma lookup_way_unique:
  "distinct (set_keys l) \<Longrightarrow> (w, Some a) \<in> set l \<Longrightarrow> lookup_way l a = Some w"
proof (induction l a rule: lookup_way.induct)
  case (1 a)
  then show ?case by simp
next
  case (2 w' k l a)
  then show ?case
    by (auto simp: set_keys_Cons set_set_keys image_iff split: option.splits)
qed

lemma lookup_way_cong_set:
  assumes "distinct (set_keys l)" "distinct (set_keys l')" "set l = set l'"
  shows "lookup_way l a = lookup_way l' a"
proof (cases "lookup_way l a")
  case None
  then show ?thesis using assms(3) by (metis lookup_way_None)
next
  case (Some w)
  then show ?thesis using assms by (metis lookup_way_Some_mem lookup_way_unique)
qed

lemma mset_touch: "mset (touch w l) = mset l"
  by (simp add: touch_def)

lemma set_touch: "set (touch w l) = set l"
  by (auto simp: touch_def)

lemma distinct_map_mset: "mset l = mset l' \<Longrightarrow> distinct (map f l) = distinct (map f l')"
  by (metis mset_eq_imp_distinct_iff mset_map)

lemma mset_set_keys: "mset l = mset l' \<Longrightarrow> mset (set_keys l) = mset (set_keys l')"
  by (simp add: set_keys_def map_filter_def)

lemma distinct_set_keys_mset: "mset l = mset l' \<Longrightarrow> distinct (set_keys l) = distinct (set_keys l')"
  by (metis mset_eq_imp_distinct_iff mset_set_keys)

lemma touch_distinct_ways: "distinct (map fst (touch w l)) = distinct (map fst l)"
  by (rule distinct_map_mset) (rule mset_touch)

lemma touch_distinct_keys: "distinct (set_keys (touch w l)) = distinct (set_keys l)"
  by (rule distinct_set_keys_mset) (rule mset_touch)

lemma touch_Nil: "touch w l = [] \<longleftrightarrow> l = []"
  by (metis mset_touch mset_zero_iff)

lemma lru_inv_nth: "lru_inv W S t \<Longrightarrow> s < S \<Longrightarrow> set_ok W (lru_sets t ! s)"
  by (simp add: lru_inv_def)

lemma lru_inv_set:
  assumes "lru_inv W S t" "s < S"
  shows "lru_sets t ! s \<noteq> []" "distinct (map fst (lru_sets t ! s))"
    "\<forall>x \<in> set (lru_sets t ! s). fst x < W" "distinct (set_keys (lru_sets t ! s))"
  using lru_inv_nth [OF assms] by (simp_all add: set_ok_def)

lemma lru_set_lt: "lru_inv W S t \<Longrightarrow> lru_set t a < S"
  by (auto simp: lru_inv_def lru_set_def)

lemma set_ok_update:
  assumes "\<forall>l \<in> set xs. set_ok W l" "set_ok W l"
  shows "\<forall>l' \<in> set (xs[s := l]). set_ok W l'"
proof
  fix l' assume "l' \<in> set (xs[s := l])"
  then have "l' \<in> insert l (set xs)"
    using set_update_subset_insert [of xs s l] by (rule rev_subsetD)
  with assms show "set_ok W l'" by auto
qed

lemma lru_inv_update:
  assumes "lru_inv W S t" "l \<noteq> []" "distinct (map fst l)" "\<forall>x \<in> set l. fst x < W"
    "distinct (set_keys l)"
  shows "lru_inv W S (t\<lparr>lru_sets := (lru_sets t)[s := l]\<rparr>)"
proof -
  have ok: "set_ok W l" using assms(2-5) by (simp add: set_ok_def)
  have all: "\<forall>l \<in> set (lru_sets t). set_ok W l" using assms(1) by (simp add: lru_inv_def)
  from set_ok_update [OF all ok, of s] assms(1) show ?thesis
    by (simp add: lru_inv_def)
qed

lemma lru_set_update [simp]: "lru_set (t\<lparr>lru_sets := (lru_sets t)[s := l]\<rparr>) a = lru_set t a"
  by (simp add: lru_set_def)

lemma lru_peek_hit:
  "lru_read_no_touch t a = (True, w) \<longleftrightarrow>
     lru_set t a < length (lru_sets t) \<and> lookup_way (lru_sets t ! lru_set t a) a = Some w"
  by (auto simp: lru_read_no_touch_def Let_def split: option.splits)

lemma lru_peek_miss:
  "\<not> fst (lru_read_no_touch t a) \<longleftrightarrow>
     (lru_set t a < length (lru_sets t) \<longrightarrow> lookup_way (lru_sets t ! lru_set t a) a = None)"
  by (auto simp: lru_read_no_touch_def Let_def split: option.splits)

lemma lru_peek_way:
  assumes "lru_inv W S t" "lru_read_no_touch t a = (True, w)"
  shows "w < W"
proof -
  have s: "lru_set t a < S" using assms(1) by (rule lru_set_lt)
  from assms(2) have "(w, Some a) \<in> set (lru_sets t ! lru_set t a)"
    by (auto simp: lru_peek_hit dest: lookup_way_Some_mem)
  with lru_inv_set(3) [OF assms(1) s] show ?thesis by fastforce
qed

lemma lru_read_fst: "fst (lru_read t a) = lru_read_no_touch t a"
  by (simp add: lru_read_def Let_def split: prod.splits)

lemma lru_read_snd:
  "snd (lru_read t a) =
     (case lru_read_no_touch t a of
        (True, w) \<Rightarrow> t\<lparr>lru_sets := (lru_sets t)[lru_set t a := touch w (lru_sets t ! lru_set t a)]\<rparr>
      | (False, w) \<Rightarrow> t)"
  by (simp add: lru_read_def Let_def split: prod.splits bool.splits)

lemma lru_read_inv: "lru_inv W S t \<Longrightarrow> lru_inv W S (snd (lru_read t a))"
proof -
  assume inv: "lru_inv W S t"
  have s: "lru_set t a < S" using inv by (rule lru_set_lt)
  note i = lru_inv_set [OF inv s]
  have "lru_inv W S (t\<lparr>lru_sets := (lru_sets t)[lru_set t a := touch w (lru_sets t ! lru_set t a)]\<rparr>)" for w
    by (rule lru_inv_update [OF inv])
      (simp_all add: touch_Nil touch_distinct_ways touch_distinct_keys set_touch i)
  then show ?thesis
    unfolding lru_read_snd by (auto split: prod.splits bool.splits simp: inv)
qed

lemma lru_read_peek:
  assumes "lru_inv W S t"
  shows "lru_read_no_touch (snd (lru_read t a)) b = lru_read_no_touch t b"
proof -
  have s: "lru_set t a < S" using assms by (rule lru_set_lt)
  have len: "length (lru_sets t) = S" using assms by (simp add: lru_inv_def)
  note i = lru_inv_set [OF assms s]
  have l: "lookup_way (touch w (lru_sets t ! lru_set t a)) b = lookup_way (lru_sets t ! lru_set t a) b" for w
    by (rule lookup_way_cong_set) (simp_all add: touch_distinct_keys set_touch i)
  have "lru_read_no_touch
      (t\<lparr>lru_sets := (lru_sets t)[lru_set t a := touch w (lru_sets t ! lru_set t a)]\<rparr>) b =
      lru_read_no_touch t b" for w
  proof (cases "lru_set t b = lru_set t a")
    case True
    then show ?thesis using s len by (simp add: lru_read_no_touch_def Let_def l)
  next
    case False
    then show ?thesis by (simp add: lru_read_no_touch_def Let_def)
  qed
  then show ?thesis
    unfolding lru_read_snd by (auto split: prod.splits bool.splits)
qed

lemma lru_read_set: "lru_set (snd (lru_read t a)) b = lru_set t b"
  unfolding lru_read_snd by (auto split: prod.splits bool.splits)

lemma lru_write_eq:
  assumes "lru_inv W S t"
  shows "lru_write t a =
     (fst (hd (lru_sets t ! lru_set t a)),
      t\<lparr>lru_sets := (lru_sets t)[lru_set t a :=
           tl (lru_sets t ! lru_set t a) @ [(fst (hd (lru_sets t ! lru_set t a)), Some a)]]\<rparr>)"
proof -
  have s: "lru_set t a < S" using assms by (rule lru_set_lt)
  have len: "length (lru_sets t) = S" using assms by (simp add: lru_inv_def)
  note i = lru_inv_set [OF assms s]
  show ?thesis
    using s len i(1) by (auto simp: lru_write_def Let_def split: list.splits)
qed

lemma lru_write_set: "lru_set (snd (lru_write t a)) b = lru_set t b"
  by (auto simp: lru_write_def Let_def split: list.splits)

lemma lru_victim:
  assumes "lru_inv W S t" "\<not> fst (lru_read_no_touch t a)"
  defines "l \<equiv> lru_sets t ! lru_set t a"
  defines "l' \<equiv> tl l @ [(fst (hd l), Some a)]"
  shows "l' \<noteq> []" "distinct (map fst l')" "\<forall>x \<in> set l'. fst x < W"
    "distinct (set_keys l')" "set l' \<subseteq> insert (fst (hd l), Some a) (set l)"
proof -
  have s: "lru_set t a < S" using assms(1) by (rule lru_set_lt)
  have len: "length (lru_sets t) = S" using assms(1) by (simp add: lru_inv_def)
  note i = lru_inv_set [OF assms(1) s, folded l_def]
  obtain x r where l: "l = x # r" using i(1) by (cases l) auto
  have miss: "Some a \<notin> snd ` set l"
    using assms(2) s len by (simp add: lru_peek_miss l_def lookup_way_None)
  show "l' \<noteq> []" by (simp add: l'_def)
  show "distinct (map fst l')" using i(2) by (auto simp: l'_def l)
  show "\<forall>x \<in> set l'. fst x < W" using i(3) by (simp add: l'_def l)
  show "distinct (set_keys l')"
    using i(4) miss
    by (cases x) (auto simp: l'_def l set_keys_append set_keys_Cons set_keys_Nil set_set_keys
        split: option.splits)
  show "set l' \<subseteq> insert (fst (hd l), Some a) (set l)" by (auto simp: l'_def l)
qed

lemma lru_write_inv:
  assumes "lru_inv W S t" "\<not> fst (lru_read_no_touch t a)"
  shows "lru_inv W S (snd (lru_write t a))"
  unfolding lru_write_eq [OF assms(1)] snd_conv
  by (rule lru_inv_update [OF assms(1)]) (rule lru_victim [OF assms])+

lemma lru_write_way:
  assumes "lru_inv W S t"
  shows "fst (lru_write t a) < W"
proof -
  have s: "lru_set t a < S" using assms by (rule lru_set_lt)
  note i = lru_inv_set [OF assms s]
  show ?thesis unfolding lru_write_eq [OF assms] using i(1) i(3) by simp
qed

lemma lru_write_peek_self:
  assumes "lru_inv W S t" "\<not> fst (lru_read_no_touch t a)"
  shows "lru_read_no_touch (snd (lru_write t a)) a = (True, fst (lru_write t a))"
proof -
  have s: "lru_set t a < S" using assms(1) by (rule lru_set_lt)
  have len: "length (lru_sets t) = S" using assms(1) by (simp add: lru_inv_def)
  note v = lru_victim [OF assms]
  show ?thesis
    unfolding lru_write_eq [OF assms(1)] fst_conv snd_conv
    using s len by (simp add: lru_peek_hit lookup_way_unique [OF v(4)])
qed

lemma lru_write_peek_other:
  assumes "lru_inv W S t" "\<not> fst (lru_read_no_touch t a)" "b \<noteq> a"
    and "lru_read_no_touch (snd (lru_write t a)) b = (True, w)"
  shows "lru_read_no_touch t b = (True, w)"
proof -
  have s: "lru_set t a < S" using assms(1) by (rule lru_set_lt)
  have len: "length (lru_sets t) = S" using assms(1) by (simp add: lru_inv_def)
  note v = lru_victim [OF assms(1,2)]
  note i = lru_inv_set [OF assms(1) s]
  show ?thesis
  proof (cases "lru_set t b = lru_set t a")
    case True
    from assms(4) have "lookup_way (tl (lru_sets t ! lru_set t a) @
        [(fst (hd (lru_sets t ! lru_set t a)), Some a)]) b = Some w"
      unfolding lru_write_eq [OF assms(1)] snd_conv using s len True by (simp add: lru_peek_hit)
    then have "(w, Some b) \<in> set (lru_sets t ! lru_set t a)"
      using v(5) assms(3) by (auto dest!: lookup_way_Some_mem)
    then show ?thesis
      using s len True by (simp add: lru_peek_hit lookup_way_unique [OF i(4)])
  next
    case False
    with assms(4) show ?thesis
      unfolding lru_write_eq [OF assms(1)] snd_conv by (auto simp: lru_peek_hit)
  qed
qed

lemma lru_injective:
  assumes "lru_inv W S t" "lru_read_no_touch t a = (True, w)" "lru_read_no_touch t b = (True, w)"
    "lru_set t a = lru_set t b"
  shows "a = b"
proof -
  have s: "lru_set t a < S" using assms(1) by (rule lru_set_lt)
  note i = lru_inv_set [OF assms(1) s]
  have "(w, Some a) \<in> set (lru_sets t ! lru_set t a)" "(w, Some b) \<in> set (lru_sets t ! lru_set t a)"
    using assms(2,3,4) by (auto simp: lru_peek_hit dest: lookup_way_Some_mem)
  with i(2) have "Some a = Some b" by (rule eq_key_imp_eq_value)
  then show ?thesis by simp
qed

lemma LRU_simps [simp]:
  "cta_new LRU = lru_new" "cta_set LRU = lru_set" "cta_read_no_touch LRU = lru_read_no_touch"
  "cta_read LRU = lru_read" "cta_write LRU = lru_write"
  by (simp_all add: LRU_def)

lemma LRU_contract: "store_contract LRU (lru_inv W S) W S"
  unfolding store_contract_def LRU_simps
proof (intro conjI allI impI)
  fix t :: "'a word lru_store" and a b :: "'a word" and w :: nat
  assume inv: "lru_inv W S t"
  show "lru_set t a < S" using inv by (rule lru_set_lt)
  show "fst (lru_read t a) = lru_read_no_touch t a" by (rule lru_read_fst)
  show "lru_inv W S (snd (lru_read t a))" using inv by (rule lru_read_inv)
  show "lru_read_no_touch (snd (lru_read t a)) b = lru_read_no_touch t b"
    using inv by (rule lru_read_peek)
  show "lru_set (snd (lru_read t a)) b = lru_set t b" by (rule lru_read_set)
  show "lru_set (snd (lru_write t a)) b = lru_set t b" by (rule lru_write_set)
  {
    assume "lru_read_no_touch t a = (True, w)"
    with inv show "w < W" by (rule lru_peek_way)
  }
  {
    assume miss: "\<not> fst (lru_read_no_touch t a)"
    show "lru_inv W S (snd (lru_write t a))" using inv miss by (rule lru_write_inv)
    show "fst (lru_write t a) < W" using inv by (rule lru_write_way)
    show "lru_read_no_touch (snd (lru_write t a)) a = (True, fst (lru_write t a))"
      using inv miss by (rule lru_write_peek_self)
    assume "b \<noteq> a" "lru_read_no_touch (snd (lru_write t a)) b = (True, w)"
    with inv miss show "lru_read_no_touch t b = (True, w)" by (rule lru_write_peek_other)
  }
  {
    assume "lru_read_no_touch t a = (True, w)" "lru_read_no_touch t b = (True, w)"
      "lru_set t a = lru_set t b"
    with inv show "a = b" by (rule lru_injective)
  }
qed

lemma lookup_way_fresh: "lookup_way (map (\<lambda>w. (w, None)) ws) a = None"
  by (simp add: lookup_way_None image_iff)

lemma set_keys_fresh: "set_keys (map (\<lambda>w. (w, None)) ws) = []"
  by (induction ws) (simp_all add: set_keys_Cons set_keys_Nil)

lemma lru_new_misses: "lru_read_no_touch (lru_new size_in_entries ways line bits) a = (False, 0)"
  by (simp add: lru_read_no_touch_def lru_new_def Let_def lookup_way_fresh)

lemma lru_new_inv:
  "0 < ways \<Longrightarrow> ways \<le> size_in_entries \<Longrightarrow>
   lru_inv ways (size_in_entries div ways) (lru_new size_in_entries ways line bits)"
  by (simp add: lru_inv_def set_ok_def lru_new_def set_keys_fresh comp_def div_greater_zero_iff)

section \<open>The table on a store that keeps the contract\<close>

lemmas store_contractD = iffD1 [OF store_contract_def]

lemmas contract_set = store_contractD [THEN conjunct1, rule_format]

lemmas contract_peek_way = store_contractD [THEN conjunct2, THEN conjunct1, rule_format]

lemmas contract_read_fst = store_contractD [THEN conjunct2, THEN conjunct2, THEN conjunct1, rule_format]

lemmas contract_read_inv = store_contractD [THEN conjunct2, THEN conjunct2, THEN conjunct2, THEN conjunct1, rule_format]

lemmas contract_read_peek = store_contractD [THEN conjunct2, THEN conjunct2, THEN conjunct2, THEN conjunct2, THEN conjunct1, rule_format]

lemmas contract_read_set = store_contractD [THEN conjunct2, THEN conjunct2, THEN conjunct2, THEN conjunct2, THEN conjunct2, THEN conjunct1, rule_format]

lemmas contract_write_inv = store_contractD [THEN conjunct2, THEN conjunct2, THEN conjunct2, THEN conjunct2, THEN conjunct2, THEN conjunct2, THEN conjunct1, rule_format]

lemmas contract_write_both = store_contractD [THEN conjunct2, THEN conjunct2, THEN conjunct2, THEN conjunct2, THEN conjunct2, THEN conjunct2, THEN conjunct2, THEN conjunct1, rule_format]

lemmas contract_write_other = store_contractD [THEN conjunct2, THEN conjunct2, THEN conjunct2, THEN conjunct2, THEN conjunct2, THEN conjunct2, THEN conjunct2, THEN conjunct2, THEN conjunct1, rule_format]

lemmas contract_write_set = store_contractD [THEN conjunct2, THEN conjunct2, THEN conjunct2, THEN conjunct2, THEN conjunct2, THEN conjunct2, THEN conjunct2, THEN conjunct2, THEN conjunct2, THEN conjunct1, rule_format]

lemmas contract_injective = store_contractD [THEN conjunct2, THEN conjunct2, THEN conjunct2, THEN conjunct2, THEN conjunct2, THEN conjunct2, THEN conjunct2, THEN conjunct2, THEN conjunct2, THEN conjunct2, rule_format]

lemmas contract_write_way = contract_write_both [THEN conjunct1]

lemmas contract_write_self = contract_write_both [THEN conjunct2]

lemma BP_inv_shape:
  "BP_inv I W S bp \<longleftrightarrow> I (tags bp) \<and> map length (data bp) = replicate W S"
proof -
  have "(length d = W \<and> (\<forall>col \<in> set d. length col = S)) \<longleftrightarrow> map length d = replicate W S"
    for d :: "'b list list"
  proof
    assume "length d = W \<and> (\<forall>col \<in> set d. length col = S)"
    then show "map length d = replicate W S"
      by (intro replicate_eqI) auto
  next
    assume eq: "map length d = replicate W S"
    then have "length (map length d) = W" by simp
    moreover have "\<forall>n \<in> set (map length d). n = S" unfolding eq by simp
    ultimately show "length d = W \<and> (\<forall>col \<in> set d. length col = S)" by simp
  qed
  then show ?thesis by (simp add: BP_inv_def)
qed

lemma BP_inv_at:
  "BP_inv I W S bp \<Longrightarrow> w < W \<Longrightarrow> s < S \<Longrightarrow> entry_at (data bp) w s = Inr (data bp ! w ! s)"
  by (simp add: BP_inv_def entry_at_def)

lemma BP_inv_at_iff:
  "BP_inv I W S bp \<Longrightarrow> (\<exists>e. entry_at (data bp) w s = Inr e) \<longleftrightarrow> w < W \<and> s < S"
  by (auto simp: BP_inv_def entry_at_def)

lemma BP_inv_update:
  "BP_inv I W S bp \<Longrightarrow> I t \<Longrightarrow>
   BP_inv I W S (bp\<lparr>data := entry_put (data bp) w s e, tags := t\<rparr>)"
  by (simp add: BP_inv_shape map_length_entry_put)

lemma BP_inv_tags: "BP_inv I W S bp \<Longrightarrow> I (tags bp)"
  by (simp add: BP_inv_def)

subsection \<open>Queries on a well-formed table\<close>

lemma BP_is_taken_hit:
  assumes "store_contract C I W S" "BP_inv I W S bp" "cta_read_no_touch C (tags bp) a = (True, w)"
  shows "BP_is_taken T C bp a = Inr (entry_is_taken T (data bp ! w ! cta_set C (tags bp) a) a)"
proof -
  have "w < W" using assms by (blast intro: contract_peek_way BP_inv_tags)
  moreover have "cta_set C (tags bp) a < S" using assms by (blast intro: contract_set BP_inv_tags)
  ultimately show ?thesis
    using assms(2,3) by (simp add: BP_is_taken_def BP_inv_at)
qed

lemma BP_is_taken_miss:
  "\<not> fst (cta_read_no_touch C (tags bp) a) \<Longrightarrow> BP_is_taken T C bp a = Inr False"
  by (cases "cta_read_no_touch C (tags bp) a") (simp add: BP_is_taken_def)

lemma BP_get_target_miss:
  "\<not> fst (cta_read_no_touch C (tags bp) a) \<Longrightarrow> BP_get_target T C bp a = Inr (a + 4)"
  by (cases "cta_read_no_touch C (tags bp) a") (simp add: BP_get_target_def)

lemma BP_get_target_hit:
  assumes "store_contract C I W S" "BP_inv I W S bp" "cta_read_no_touch C (tags bp) a = (True, w)"
  shows "BP_get_target T C bp a =
     Inr (if entry_is_taken T (data bp ! w ! cta_set C (tags bp) a) a
          then entry_getTarget T (data bp ! w ! cta_set C (tags bp) a) else a + 4)"
proof -
  have "w < W" using assms by (blast intro: contract_peek_way BP_inv_tags)
  moreover have "cta_set C (tags bp) a < S" using assms by (blast intro: contract_set BP_inv_tags)
  ultimately show ?thesis
    using assms(2,3) by (simp add: BP_get_target_def BP_is_taken_hit [OF assms] BP_inv_at)
qed

lemma entry_of_hit:
  assumes "store_contract C I W S" "BP_inv I W S bp" "cta_read_no_touch C (tags bp) a = (True, w)"
  shows "entry_of C bp a = Some (data bp ! w ! cta_set C (tags bp) a)"
proof -
  have "w < W" using assms by (blast intro: contract_peek_way BP_inv_tags)
  moreover have "cta_set C (tags bp) a < S" using assms by (blast intro: contract_set BP_inv_tags)
  ultimately show ?thesis
    using assms(2,3) by (simp add: entry_of_def resident_def BP_inv_at)
qed

lemma entry_of_miss: "\<not> fst (cta_read_no_touch C (tags bp) a) \<Longrightarrow> entry_of C bp a = None"
  by (cases "cta_read_no_touch C (tags bp) a") (simp add: entry_of_def resident_def)

lemma BP_is_taken_entry_of:
  assumes "store_contract C I W S" "BP_inv I W S bp"
  shows "BP_is_taken T C bp a =
     Inr (case entry_of C bp a of None \<Rightarrow> False | Some e \<Rightarrow> entry_is_taken T e a)"
proof (cases "cta_read_no_touch C (tags bp) a")
  case (Pair h w)
  then show ?thesis
    by (cases h) (simp_all add: BP_is_taken_hit [OF assms] entry_of_hit [OF assms]
        BP_is_taken_miss entry_of_miss)
qed

lemma BP_get_target_entry_of:
  assumes "store_contract C I W S" "BP_inv I W S bp"
  shows "BP_get_target T C bp a =
     Inr (case entry_of C bp a of
            None \<Rightarrow> a + 4
          | Some e \<Rightarrow> if entry_is_taken T e a then entry_getTarget T e else a + 4)"
proof (cases "cta_read_no_touch C (tags bp) a")
  case (Pair h w)
  then show ?thesis
    by (cases h) (simp_all add: BP_get_target_hit [OF assms] entry_of_hit [OF assms]
        BP_get_target_miss entry_of_miss)
qed

lemma BP_get_bp_info_entry_of:
  assumes "store_contract C I W S" "BP_inv I W S bp"
  shows "\<exists>r. BP_get_bp_info T C bp a = Inr r"
  by (simp add: BP_get_bp_info_def BP_is_taken_entry_of [OF assms] BP_get_target_entry_of [OF assms])

lemma BP_call_query:
  assumes "store_contract C I W S" "BP_inv I W S bp" "is_query c"
  shows "BP_call T C bp c = Inr bp"
proof (cases c)
  case (Call_get_bp_info a)
  obtain r where "BP_get_bp_info T C bp a = Inr r"
    using BP_get_bp_info_entry_of [OF assms(1,2)] by blast
  with Call_get_bp_info show ?thesis by simp
qed (use assms(3) in \<open>simp_all add: BP_is_taken_entry_of [OF assms(1,2)]
      BP_get_target_entry_of [OF assms(1,2)]\<close>)

lemma BP_call_query_same: "is_query c \<Longrightarrow> BP_call T C bp c = Inr bp' \<Longrightarrow> bp' = bp"
  by (cases c) (auto split: sum.splits)

subsection \<open>Training on a well-formed table\<close>

lemma BP_update_inv_hit:
  assumes c: "store_contract C I W S" and inv: "BP_inv I W S bp"
    and hit: "cta_read_no_touch C (tags bp) (pc bp_upd) = (True, w)"
  shows "BP_update T C bp bp_upd =
     Inr (bp\<lparr>data := entry_put (data bp) w (cta_set C (tags bp) (pc bp_upd))
                        (entry_update T (data bp ! w ! cta_set C (tags bp) (pc bp_upd))
                           (is_taken bp_upd) (target bp_upd)),
             tags := snd (cta_read C (tags bp) (pc bp_upd))\<rparr>)"
proof -
  have I: "I (tags bp)" using inv by (rule BP_inv_tags)
  have r: "cta_read C (tags bp) (pc bp_upd) = ((True, w), snd (cta_read C (tags bp) (pc bp_upd)))"
    using contract_read_fst [OF c I, of "pc bp_upd"] hit by (simp add: prod_eq_iff)
  have "w < W" using c I hit by (rule contract_peek_way)
  moreover have "cta_set C (tags bp) (pc bp_upd) < S" using c I by (rule contract_set)
  ultimately have e: "entry_at (data bp) w (cta_set C (tags bp) (pc bp_upd)) =
      Inr (data bp ! w ! cta_set C (tags bp) (pc bp_upd))"
    using inv by (simp add: BP_inv_at)
  show ?thesis by (rule BP_update_hit [OF r e])
qed

lemma BP_update_inv_miss:
  assumes c: "store_contract C I W S" and inv: "BP_inv I W S bp"
    and miss: "\<not> fst (cta_read_no_touch C (tags bp) (pc bp_upd))"
  defines "t1 \<equiv> snd (cta_read C (tags bp) (pc bp_upd))"
  defines "w \<equiv> fst (cta_write C t1 (pc bp_upd))"
  shows "BP_update T C bp bp_upd =
     Inr (bp\<lparr>data := entry_put (data bp) w (cta_set C (tags bp) (pc bp_upd))
                        (entry_update T
                           (entry_update_target T
                              (entry_reset T (data bp ! w ! cta_set C (tags bp) (pc bp_upd)))
                              (target bp_upd))
                           (is_taken bp_upd) (target bp_upd)),
             tags := snd (cta_write C t1 (pc bp_upd))\<rparr>)"
    and "I t1" and "\<not> fst (cta_read_no_touch C t1 (pc bp_upd))" and "w < W"
proof -
  have I: "I (tags bp)" using inv by (rule BP_inv_tags)
  show I1: "I t1" unfolding t1_def using c I by (rule contract_read_inv)
  show m1: "\<not> fst (cta_read_no_touch C t1 (pc bp_upd))"
    unfolding t1_def contract_read_peek [OF c I] by (rule miss)
  have r: "cta_read C (tags bp) (pc bp_upd) = ((False, snd (fst (cta_read C (tags bp) (pc bp_upd)))), t1)"
    using contract_read_fst [OF c I, of "pc bp_upd"] miss by (simp add: prod_eq_iff t1_def)
  have wr: "cta_write C t1 (pc bp_upd) = (w, snd (cta_write C t1 (pc bp_upd)))"
    by (simp add: w_def)
  show w: "w < W" unfolding w_def using c I1 m1 by (rule contract_write_way)
  have "cta_set C (tags bp) (pc bp_upd) < S" using c I by (rule contract_set)
  with w have e: "entry_at (data bp) w (cta_set C (tags bp) (pc bp_upd)) =
      Inr (data bp ! w ! cta_set C (tags bp) (pc bp_upd))"
    using inv by (simp add: BP_inv_at)
  show "BP_update T C bp bp_upd =
     Inr (bp\<lparr>data := entry_put (data bp) w (cta_set C (tags bp) (pc bp_upd))
                        (entry_update T
                           (entry_update_target T
                              (entry_reset T (data bp ! w ! cta_set C (tags bp) (pc bp_upd)))
                              (target bp_upd))
                           (is_taken bp_upd) (target bp_upd)),
             tags := snd (cta_write C t1 (pc bp_upd))\<rparr>)"
    by (rule BP_update_miss [OF r wr e])
qed

lemma BP_update_effect:
  assumes c: "store_contract C I W S" and inv: "BP_inv I W S bp"
  shows "\<exists>bp' w. BP_update T C bp bp_upd = Inr bp' \<and> BP_inv I W S bp' \<and> w < W \<and>
     cta_read_no_touch C (tags bp') (pc bp_upd) = (True, w) \<and>
     (\<forall>a. cta_set C (tags bp') a = cta_set C (tags bp) a) \<and>
     data bp' = entry_put (data bp) w (cta_set C (tags bp) (pc bp_upd))
                  (trained_entry T C bp bp_upd w) \<and>
     (\<forall>b w'. b \<noteq> pc bp_upd \<longrightarrow> cta_read_no_touch C (tags bp') b = (True, w') \<longrightarrow>
        cta_read_no_touch C (tags bp) b = (True, w')) \<and>
     (\<forall>w0. cta_read_no_touch C (tags bp) (pc bp_upd) = (True, w0) \<longrightarrow> w = w0)"
proof (cases "cta_read_no_touch C (tags bp) (pc bp_upd)")
  case (Pair hit w0)
  have I: "I (tags bp)" using inv by (rule BP_inv_tags)
  show ?thesis
  proof (cases hit)
    case True
    with Pair have hit: "cta_read_no_touch C (tags bp) (pc bp_upd) = (True, w0)" by simp
    let ?t = "snd (cta_read C (tags bp) (pc bp_upd))"
    let ?bp = "bp\<lparr>data := entry_put (data bp) w0 (cta_set C (tags bp) (pc bp_upd))
                        (entry_update T (data bp ! w0 ! cta_set C (tags bp) (pc bp_upd))
                           (is_taken bp_upd) (target bp_upd)),
             tags := ?t\<rparr>"
    have u: "BP_update T C bp bp_upd = Inr ?bp" by (rule BP_update_inv_hit [OF c inv hit])
    have It: "I ?t" using c I by (rule contract_read_inv)
    have inv': "BP_inv I W S ?bp" using inv It by (rule BP_inv_update)
    have w: "w0 < W" using c I hit by (rule contract_peek_way)
    have tr: "trained_entry T C bp bp_upd w0 =
        entry_update T (data bp ! w0 ! cta_set C (tags bp) (pc bp_upd)) (is_taken bp_upd) (target bp_upd)"
      by (simp add: trained_entry_def entry_of_hit [OF c inv hit])
    show ?thesis
      apply (rule exI [of _ ?bp], rule exI [of _ w0])
      using u inv' w hit
      by (simp add: contract_read_peek [OF c I] contract_read_set [OF c I] tr)
  next
    case False
    with Pair have miss: "\<not> fst (cta_read_no_touch C (tags bp) (pc bp_upd))" by simp
    let ?t1 = "snd (cta_read C (tags bp) (pc bp_upd))"
    let ?w = "fst (cta_write C ?t1 (pc bp_upd))"
    let ?t2 = "snd (cta_write C ?t1 (pc bp_upd))"
    let ?bp = "bp\<lparr>data := entry_put (data bp) ?w (cta_set C (tags bp) (pc bp_upd))
                        (entry_update T
                           (entry_update_target T
                              (entry_reset T (data bp ! ?w ! cta_set C (tags bp) (pc bp_upd)))
                              (target bp_upd))
                           (is_taken bp_upd) (target bp_upd)),
             tags := ?t2\<rparr>"
    note m = BP_update_inv_miss [OF c inv miss]
    have u: "BP_update T C bp bp_upd = Inr ?bp" by (rule m(1))
    have It: "I ?t2" using c m(2) m(3) by (rule contract_write_inv)
    have inv': "BP_inv I W S ?bp" using inv It by (rule BP_inv_update)
    have self: "cta_read_no_touch C ?t2 (pc bp_upd) = (True, ?w)"
      using c m(2) m(3) by (rule contract_write_self)
    have other: "cta_read_no_touch C (tags bp) b = (True, w')"
      if "b \<noteq> pc bp_upd" "cta_read_no_touch C ?t2 b = (True, w')" for b w'
    proof -
      have "cta_read_no_touch C ?t1 b = (True, w')"
        using c m(2) m(3) that by (rule contract_write_other)
      then show ?thesis by (simp add: contract_read_peek [OF c I])
    qed
    have st: "cta_set C ?t2 a = cta_set C (tags bp) a" for a
      by (simp add: contract_write_set [OF c m(2)] contract_read_set [OF c I])
    have tr: "trained_entry T C bp bp_upd ?w =
        entry_update T
          (entry_update_target T
             (entry_reset T (data bp ! ?w ! cta_set C (tags bp) (pc bp_upd)))
             (target bp_upd))
          (is_taken bp_upd) (target bp_upd)"
      by (simp add: trained_entry_def entry_of_miss [OF miss])
    show ?thesis
      apply (rule exI [of _ ?bp], rule exI [of _ ?w])
      using u inv' m(4) self other st miss Pair
      by (simp add: tr)
  qed
qed

lemma BP_update_total:
  assumes "store_contract C I W S" "BP_inv I W S bp"
  shows "\<exists>bp'. BP_update T C bp bp_upd = Inr bp' \<and> BP_inv I W S bp'"
  using BP_update_effect [OF assms] by blast

lemma BP_call_total:
  assumes "store_contract C I W S" "BP_inv I W S bp"
  shows "\<exists>bp'. BP_call T C bp c = Inr bp' \<and> BP_inv I W S bp'"
proof (cases "is_query c")
  case True
  then show ?thesis using BP_call_query [OF assms] assms(2) by blast
next
  case False
  then obtain u where "c = Call_update u" by (cases c) auto
  then show ?thesis using BP_update_total [OF assms] by simp
qed

lemma BP_run_total:
  assumes "store_contract C I W S" "BP_inv I W S bp"
  shows "\<exists>bp'. BP_run T C bp cs = Inr bp' \<and> BP_inv I W S bp'"
  using assms(2)
proof (induction cs arbitrary: bp)
  case Nil
  then show ?case by simp
next
  case (Cons c cs)
  from BP_call_total [OF assms(1) Cons.prems] obtain bp1
    where 1: "BP_call T C bp c = Inr bp1" "BP_inv I W S bp1" by blast
  from Cons.IH [OF 1(2)] 1(1) show ?case by simp
qed

lemma BP_run_inv:
  assumes "store_contract C I W S" "BP_inv I W S bp" "BP_run T C bp cs = Inr bp'"
  shows "BP_inv I W S bp'"
  using BP_run_total [OF assms(1,2), of T cs] assms(3) by simp

lemma BP_run_queries:
  assumes "store_contract C I W S" "BP_inv I W S bp" "\<forall>c \<in> set cs. is_query c"
  shows "BP_run T C bp cs = Inr bp"
  using assms(3) by (induction cs) (simp_all add: BP_call_query [OF assms(1,2)])

lemma BP_new_inv:
  assumes "BP_new T C size_in_entries ways bits = Inr bp"
    "I (cta_new C size_in_entries ways 4 bits)"
  shows "BP_inv I ways (size_in_entries div ways) bp"
  using assms by (auto simp: BP_new_def BP_inv_def split: if_splits)

lemma entry_of_resident:
  assumes "store_contract C I W S" "BP_inv I W S bp"
  shows "entry_of C bp a = (case resident C bp a of None \<Rightarrow> None
     | Some (w, s) \<Rightarrow> Some (data bp ! w ! s))"
proof (cases "cta_read_no_touch C (tags bp) a")
  case (Pair h w)
  then show ?thesis
    by (cases h) (simp_all add: entry_of_hit [OF assms] entry_of_miss resident_def)
qed

lemma resident_Some:
  "resident C bp a = Some (w, s) \<longleftrightarrow>
     cta_read_no_touch C (tags bp) a = (True, w) \<and> s = cta_set C (tags bp) a"
  by (cases "cta_read_no_touch C (tags bp) a") (auto simp: resident_def)

lemma resident_in_range:
  assumes "store_contract C I W S" "BP_inv I W S bp" "resident C bp a = Some (w, s)"
  shows "w < W" "s < S" "entry_at (data bp) w s = Inr (data bp ! w ! s)"
proof -
  have I: "I (tags bp)" using assms(2) by (rule BP_inv_tags)
  from assms(3) have h: "cta_read_no_touch C (tags bp) a = (True, w)" "s = cta_set C (tags bp) a"
    by (simp_all add: resident_Some)
  show "w < W" using assms(1) I h(1) by (rule contract_peek_way)
  moreover show "s < S" unfolding h(2) using assms(1) I by (rule contract_set)
  ultimately show "entry_at (data bp) w s = Inr (data bp ! w ! s)"
    using assms(2) by (simp add: BP_inv_at)
qed

lemma resident_injective:
  assumes "store_contract C I W S" "BP_inv I W S bp"
    "resident C bp a = Some c" "resident C bp b = Some c"
  shows "a = b"
proof -
  have I: "I (tags bp)" using assms(2) by (rule BP_inv_tags)
  obtain w s where c: "c = (w, s)" by (cases c)
  from assms(3,4) show ?thesis
    unfolding c resident_Some using contract_injective [OF assms(1) I, of a w b] by simp
qed

lemma BP_update_resident:
  assumes c: "store_contract C I W S" and inv: "BP_inv I W S bp"
  shows "\<exists>bp' w. BP_update T C bp bp_upd = Inr bp' \<and> BP_inv I W S bp' \<and>
     resident C bp' (pc bp_upd) = Some (w, cta_set C (tags bp) (pc bp_upd)) \<and>
     entry_of C bp' (pc bp_upd) = Some (trained_entry T C bp bp_upd w) \<and>
     (\<forall>w0 s0. resident C bp (pc bp_upd) = Some (w0, s0) \<longrightarrow> w0 = w) \<and>
     (\<forall>b c. b \<noteq> pc bp_upd \<longrightarrow> resident C bp' b = Some c \<longrightarrow>
        resident C bp b = Some c \<and> entry_of C bp' b = entry_of C bp b)"
proof -
  from BP_update_effect [OF c inv, of T bp_upd] obtain bp' w where
    u: "BP_update T C bp bp_upd = Inr bp'" and inv': "BP_inv I W S bp'" and w: "w < W"
    and hit: "cta_read_no_touch C (tags bp') (pc bp_upd) = (True, w)"
    and st: "\<And>a. cta_set C (tags bp') a = cta_set C (tags bp) a"
    and d: "data bp' = entry_put (data bp) w (cta_set C (tags bp) (pc bp_upd))
                  (trained_entry T C bp bp_upd w)"
    and other: "\<And>b w'. b \<noteq> pc bp_upd \<Longrightarrow> cta_read_no_touch C (tags bp') b = (True, w') \<Longrightarrow>
        cta_read_no_touch C (tags bp) b = (True, w')"
    and same: "\<And>w0. cta_read_no_touch C (tags bp) (pc bp_upd) = (True, w0) \<Longrightarrow> w = w0"
    by blast
  let ?s = "cta_set C (tags bp) (pc bp_upd)"
  have I: "I (tags bp)" using inv by (rule BP_inv_tags)
  have I': "I (tags bp')" using inv' by (rule BP_inv_tags)
  have s: "?s < S" using c I by (rule contract_set)
  have len: "w < length (data bp)" "?s < length (data bp ! w)"
    using inv w s by (simp_all add: BP_inv_def)
  have res: "resident C bp' (pc bp_upd) = Some (w, ?s)"
    by (simp add: resident_Some hit st)
  have ent: "entry_of C bp' (pc bp_upd) = Some (trained_entry T C bp bp_upd w)"
    using len by (simp add: entry_of_def res d entry_at_put)
  have fr: "resident C bp b = Some cd \<and> entry_of C bp' b = entry_of C bp b"
    if b: "b \<noteq> pc bp_upd" and r: "resident C bp' b = Some cd" for b cd
  proof -
    obtain w' s' where cd: "cd = (w', s')" by (cases cd)
    from r have h': "cta_read_no_touch C (tags bp') b = (True, w')" and s': "s' = cta_set C (tags bp) b"
      by (simp_all add: cd resident_Some st)
    from other [OF b h'] have h: "cta_read_no_touch C (tags bp) b = (True, w')" .
    then have r0: "resident C bp b = Some cd" by (simp add: cd resident_Some s')
    have ne: "(w', s') \<noteq> (w, ?s)"
    proof
      assume "(w', s') = (w, ?s)"
      then have "w' = w" "cta_set C (tags bp') b = cta_set C (tags bp') (pc bp_upd)"
        by (simp_all add: s' st)
      with contract_injective [OF c I', of b w "pc bp_upd"] h' hit have "b = pc bp_upd" by simp
      with b show False by simp
    qed
    have "entry_at (data bp') w' s' = entry_at (data bp) w' s'"
      using len ne by (auto simp: d entry_at_put)
    then have "entry_of C bp' b = entry_of C bp b"
      by (simp add: entry_of_def r r0 cd)
    with r0 show ?thesis by simp
  qed
  have sm: "w0 = w" if "resident C bp (pc bp_upd) = Some (w0, s0)" for w0 s0
    using that same [of w0] by (simp add: resident_Some)
  show ?thesis
    using u inv' res ent fr sm by blast
qed

section \<open>New tables and the factory\<close>

lemma LRU_cold: "store_cold LRU"
  by (simp add: store_cold_def lru_new_misses)

lemma BP_new_Inr:
  "BP_new T C size_in_entries ways bits = Inr bp \<longleftrightarrow>
     ways \<noteq> 0 \<and>
     bp = \<lparr>data = replicate ways (replicate (size_in_entries div ways) (entry_new T)),
           tags = cta_new C size_in_entries ways 4 bits\<rparr>"
  by (auto simp: BP_new_def)

lemma BP_new_cold:
  "store_cold C \<Longrightarrow> BP_new T C size_in_entries ways bits = Inr bp \<Longrightarrow>
   \<not> fst (cta_read_no_touch C (tags bp) a)"
  by (auto simp: BP_new_Inr store_cold_def)

lemma BP_get_bp_info_miss:
  "\<not> fst (cta_read_no_touch C (tags bp) a) \<Longrightarrow>
   BP_get_bp_info T C bp a = Inr \<lparr>pc = a, is_taken = False, target = a + 4\<rparr>"
  by (simp add: BP_get_bp_info_def BP_is_taken_miss BP_get_target_miss)

lemma BP_call_query_cold:
  "\<forall>a. \<not> fst (cta_read_no_touch C (tags bp) a) \<Longrightarrow> is_query c \<Longrightarrow> BP_call T C bp c = Inr bp"
  by (cases c) (simp_all add: BP_is_taken_miss BP_get_target_miss BP_get_bp_info_miss)

lemma BP_run_queries_cold:
  "\<forall>a. \<not> fst (cta_read_no_touch C (tags bp) a) \<Longrightarrow> \<forall>c \<in> set cs. is_query c \<Longrightarrow>
   BP_run T C bp cs = Inr bp"
  by (induction cs) (simp_all add: BP_call_query_cold)

lemma BPFactory_map_eq:
  "BPFactory_map =
     [(''adaptive_two_level'', Adaptive2), (''dynamic_one_bit'', OneBit),
      (''dynamic_two_bit'', TwoBit), (''static_always_taken'', AlwaysTaken),
      (''static_backward_jumps'', BackwardJumps)]"
  by code_simp

lemma map_of_BPFactory_map:
  "map_of BPFactory_map name =
     (if name = ''adaptive_two_level'' then Some Adaptive2
      else if name = ''dynamic_one_bit'' then Some OneBit
      else if name = ''dynamic_two_bit'' then Some TwoBit
      else if name = ''static_always_taken'' then Some AlwaysTaken
      else if name = ''static_backward_jumps'' then Some BackwardJumps
      else None)"
  unfolding BPFactory_map_eq by simp

lemma BaseBP_cold:
  assumes "store_cold C" "BPCreator_create C K alg size_in_entries ways bits = Inr h"
  shows "BaseBP_is_taken C K h a = Inr False \<and> BaseBP_get_target C K h a = Inr (a + 4)"
proof (cases alg)
  case AlwaysTaken
  with assms(2) obtain bp where
    "BP_new (BPEntryAlwaysTaken (cold_AlwaysTaken K)) C size_in_entries ways bits = Inr bp"
    "h = BP_AlwaysTaken bp"
    by (auto simp: BPCreator_create_def map_sum_def split: sum.splits)
  with BP_new_cold [OF assms(1) this(1)] show ?thesis
    by (simp add: BP_is_taken_miss BP_get_target_miss)
next
  case BackwardJumps
  with assms(2) obtain bp where
    "BP_new (BPEntryBackwardJumps (cold_BackwardJumps K)) C size_in_entries ways bits = Inr bp"
    "h = BP_BackwardJumps bp"
    by (auto simp: BPCreator_create_def map_sum_def split: sum.splits)
  with BP_new_cold [OF assms(1) this(1)] show ?thesis
    by (simp add: BP_is_taken_miss BP_get_target_miss)
next
  case OneBit
  with assms(2) obtain bp where
    "BP_new (BPEntryOneBit (cold_OneBit K)) C size_in_entries ways bits = Inr bp"
    "h = BP_OneBit bp"
    by (auto simp: BPCreator_create_def map_sum_def split: sum.splits)
  with BP_new_cold [OF assms(1) this(1)] show ?thesis
    by (simp add: BP_is_taken_miss BP_get_target_miss)
next
  case TwoBit
  with assms(2) obtain bp where
    "BP_new (BPEntryTwoBit (cold_TwoBit K)) C size_in_entries ways bits = Inr bp"
    "h = BP_TwoBit bp"
    by (auto simp: BPCreator_create_def map_sum_def split: sum.splits)
  with BP_new_cold [OF assms(1) this(1)] show ?thesis
    by (simp add: BP_is_taken_miss BP_get_target_miss)
next
  case Adaptive2
  with assms(2) obtain bp where
    "BP_new (BPEntryAdaptive (cold_Adaptive K)) C size_in_entries ways bits = Inr bp"
    "h = BP_Adaptive bp"
    by (auto simp: BPCreator_create_def map_sum_def split: sum.splits)
  with BP_new_cold [OF assms(1) this(1)] show ?thesis
    by (simp add: BP_is_taken_miss BP_get_target_miss)
qed

lemma map_of_recognized:
  "name \<in> recognized_names \<longleftrightarrow> (\<exists>alg. map_of BPFactory_map name = Some alg)"
  by (auto simp: map_of_BPFactory_map recognized_names_def)

lemma map_of_unrecognized: "name \<notin> recognized_names \<longleftrightarrow> map_of BPFactory_map name = None"
  by (auto simp: map_of_BPFactory_map recognized_names_def)

lemma invalid_mode_message_eq:
  "invalid_mode_message name =
     ''ERROR. Invalid branch prediction mode '' @ name @ endl @
     ''Supported modes:'' @ endl @
     tab @ ''adaptive_two_level'' @ endl @
     tab @ ''dynamic_one_bit'' @ endl @
     tab @ ''dynamic_two_bit'' @ endl @
     tab @ ''static_always_taken'' @ endl @
     tab @ ''static_backward_jumps'' @ endl"
  by (simp add: invalid_mode_message_def BPFactory_map_eq)

lemma BPCreator_create_Inr:
  assumes "ways \<noteq> 0"
  shows "\<exists>h. BPCreator_create C K alg size_in_entries ways bits = Inr h \<and>
     BaseBP_shape h = replicate ways (size_in_entries div ways) \<and>
     BaseBP_tags h = cta_new C size_in_entries ways 4 bits"
  using assms by (cases alg) (simp_all add: BPCreator_create_def BP_new_def)

lemma BPCreator_create_zero: "BPCreator_create C K alg size_in_entries 0 bits = Inl DivisionByZero"
  by (cases alg) (simp_all add: BPCreator_create_def BP_new_def)

section \<open>Bounds, and what queries and updates do to the store\<close>

lemma lru_peek_way_any: "lru_inv W S t \<Longrightarrow> snd (lru_read_no_touch t a) < W"
proof (cases "lru_read_no_touch t a")
  case (Pair h w)
  assume inv: "lru_inv W S t"
  show ?thesis
  proof (cases h)
    case True
    with Pair inv show ?thesis by (simp add: lru_peek_way)
  next
    case False
    with Pair have "lookup_way (lru_sets t ! lru_set t a) a = None \<or> \<not> lru_set t a < length (lru_sets t)"
      by (auto simp: lru_read_no_touch_def Let_def split: option.splits if_splits)
    then have "lru_read_no_touch t a = (False, 0)"
      by (auto simp: lru_read_no_touch_def Let_def)
    with inv show ?thesis by (simp add: lru_inv_def)
  qed
qed

lemma BP_update_no_rows:
  assumes "\<forall>col \<in> set (data bp). col = []"
  shows "BP_update T C bp bp_upd = Inl OutOfBounds"
proof -
  have "entry_at (data bp) w s = Inl OutOfBounds" for w s
    using assms nth_mem [of w "data bp"] by (fastforce simp: entry_at_def)
  then show ?thesis
    by (simp add: BP_update_def train_at_def Let_def split: prod.splits)
qed

lemma BP_update_tags:
  assumes "BP_update T C bp bp_upd = Inr bp'"
  shows "tags bp' =
     (if fst (fst (cta_read C (tags bp) (pc bp_upd))) then snd (cta_read C (tags bp) (pc bp_upd))
      else snd (cta_write C (snd (cta_read C (tags bp) (pc bp_upd))) (pc bp_upd)))"
proof -
  obtain h w t1 where r: "cta_read C (tags bp) (pc bp_upd) = ((h, w), t1)"
    by (metis prod.collapse)
  obtain w' t2 where wr: "cta_write C t1 (pc bp_upd) = (w', t2)"
    by (metis prod.collapse)
  from assms show ?thesis
    by (cases h) (auto simp: BP_update_def train_at_def Let_def r wr split: sum.splits)
qed

lemma queries_ignore_read_write:
  "BP_is_taken T (C\<lparr>cta_read := r, cta_write := w\<rparr>) bp a = BP_is_taken T C bp a"
  "BP_get_target T (C\<lparr>cta_read := r, cta_write := w\<rparr>) bp a = BP_get_target T C bp a"
  "BP_get_bp_info T (C\<lparr>cta_read := r, cta_write := w\<rparr>) bp a = BP_get_bp_info T C bp a"
  by (simp_all add: BP_is_taken_def BP_get_target_def BP_get_bp_info_def
      cong: if_cong sum.case_cong bool.case_cong)

lemma single_slot_eviction:
  assumes c: "store_contract C I 1 1" and inv: "BP_inv I 1 1 bp" and ne: "a \<noteq> pc bp_upd"
  shows "\<exists>bp'. BP_update T C bp bp_upd = Inr bp' \<and>
     BP_is_taken T C bp' a = Inr False \<and> BP_get_target T C bp' a = Inr (a + 4)"
proof -
  from BP_update_effect [OF c inv, of T bp_upd] obtain bp' w where
    u: "BP_update T C bp bp_upd = Inr bp'" and inv': "BP_inv I 1 1 bp'"
    and hit: "cta_read_no_touch C (tags bp') (pc bp_upd) = (True, w)"
    by blast
  have I': "I (tags bp')" using inv' by (rule BP_inv_tags)
  have miss: "\<not> fst (cta_read_no_touch C (tags bp') a)"
  proof
    assume "fst (cta_read_no_touch C (tags bp') a)"
    then obtain w' where h: "cta_read_no_touch C (tags bp') a = (True, w')"
      by (cases "cta_read_no_touch C (tags bp') a") auto
    have "w < 1" "w' < 1" using contract_peek_way [OF c I'] hit h by blast+
    moreover have "cta_set C (tags bp') a < 1" "cta_set C (tags bp') (pc bp_upd) < 1"
      using contract_set [OF c I'] by blast+
    ultimately have "a = pc bp_upd"
      using contract_injective [OF c I', of a w' "pc bp_upd"] h hit by simp
    with ne show False by simp
  qed
  from u miss show ?thesis by (simp add: BP_is_taken_miss BP_get_target_miss)
qed

lemma filter_fst_unique:
  "distinct (map fst l) \<Longrightarrow> (w, k) \<in> set l \<Longrightarrow> filter (\<lambda>x. fst x = w) l = [(w, k)]"
proof (induction l)
  case Nil
  then show ?case by simp
next
  case (Cons x l)
  show ?case
  proof (cases "x = (w, k)")
    case True
    with Cons.prems(1) have "\<forall>y \<in> set l. fst y \<noteq> w" by (auto simp: image_iff)
    then have "filter (\<lambda>x. fst x = w) l = []" by (simp add: filter_empty_conv)
    with True show ?thesis by simp
  next
    case False
    with Cons.prems have "(w, k) \<in> set l" "fst x \<noteq> w" by (auto simp: image_iff)
    with Cons.IH Cons.prems(1) show ?thesis by simp
  qed
qed

lemma lru_read_most_recent:
  assumes "lru_inv W S t" "lru_read_no_touch t a = (True, w)"
  shows "last (lru_sets (snd (lru_read t a)) ! lru_set t a) = (w, Some a)"
proof -
  have s: "lru_set t a < S" using assms(1) by (rule lru_set_lt)
  have len: "length (lru_sets t) = S" using assms(1) by (simp add: lru_inv_def)
  note i = lru_inv_set [OF assms(1) s]
  from assms(2) have "(w, Some a) \<in> set (lru_sets t ! lru_set t a)"
    by (auto simp: lru_peek_hit dest: lookup_way_Some_mem)
  with i(2) have "filter (\<lambda>x. fst x = w) (lru_sets t ! lru_set t a) = [(w, Some a)]"
    by (rule filter_fst_unique)
  then show ?thesis
    using s len assms(2) by (simp add: lru_read_snd touch_def)
qed

lemma lru_write_most_recent:
  assumes "lru_inv W S t"
  shows "last (lru_sets (snd (lru_write t a)) ! lru_set t a) = (fst (lru_write t a), Some a)"
proof -
  have s: "lru_set t a < S" using assms(1) by (rule lru_set_lt)
  have len: "length (lru_sets t) = S" using assms(1) by (simp add: lru_inv_def)
  show ?thesis
    unfolding lru_write_eq [OF assms] using s len by simp
qed

lemma BP_update_most_recent:
  assumes inv: "lru_inv W S (tags bp)" and u: "BP_update T LRU bp bp_upd = Inr bp'"
  shows "\<exists>w. last (lru_sets (tags bp') ! lru_set (tags bp) (pc bp_upd)) = (w, Some (pc bp_upd))"
proof (cases "lru_read_no_touch (tags bp) (pc bp_upd)")
  case (Pair h w)
  note t = BP_update_tags [OF u, unfolded LRU_simps lru_read_fst]
  show ?thesis
  proof (cases h)
    case True
    with Pair t lru_read_most_recent [OF inv, of "pc bp_upd" w] show ?thesis by simp
  next
    case False
    with Pair have "snd (lru_read (tags bp) (pc bp_upd)) = tags bp"
      by (simp add: lru_read_snd)
    with False Pair t lru_write_most_recent [OF inv, of "pc bp_upd"] show ?thesis by simp
  qed
qed

section \<open>Training, then asking\<close>

lemma BP_update_then_query:
  assumes c: "store_contract C I W S" and inv: "BP_inv I W S bp"
  shows "\<exists>bp' w. BP_update T C bp bp_upd = Inr bp' \<and> BP_inv I W S bp' \<and>
     entry_of C bp' (pc bp_upd) = Some (trained_entry T C bp bp_upd w) \<and>
     BP_is_taken T C bp' (pc bp_upd) =
       Inr (entry_is_taken T (trained_entry T C bp bp_upd w) (pc bp_upd)) \<and>
     BP_get_target T C bp' (pc bp_upd) =
       Inr (if entry_is_taken T (trained_entry T C bp bp_upd w) (pc bp_upd)
            then entry_getTarget T (trained_entry T C bp bp_upd w) else pc bp_upd + 4) \<and>
     (\<forall>c. is_query c \<longrightarrow> BP_call T C bp' c = Inr bp')"
proof -
  from BP_update_resident [OF c inv, of T bp_upd] obtain bp' w where
    u: "BP_update T C bp bp_upd = Inr bp'" and inv': "BP_inv I W S bp'"
    and e: "entry_of C bp' (pc bp_upd) = Some (trained_entry T C bp bp_upd w)"
    by blast
  have q: "\<forall>c. is_query c \<longrightarrow> BP_call T C bp' c = Inr bp'"
    using BP_call_query [OF c inv'] by blast
  show ?thesis
    using u inv' e q
    by (intro exI [of _ bp'] exI [of _ w])
      (simp add: BP_is_taken_entry_of [OF c inv'] BP_get_target_entry_of [OF c inv'])
qed



lemma trained_TwoBit:
  "trained_entry (BPEntryTwoBit cold) C bp bp_upd w =
     \<lparr>tb_target = target bp_upd,
      tb_state = counter_train (is_taken bp_upd)
        (case entry_of C bp (pc bp_upd) of None \<Rightarrow> tb_state cold | Some e \<Rightarrow> tb_state e)\<rparr>"
  by (simp add: trained_entry_def BPEntryTwoBit_def split: option.splits)



lemma twobit_table_example_inv: "BP_inv (lru_inv 2 2) 2 2 twobit_table_example"
proof -
  have i: "lru_inv 2 (4 div 2) (cta_new LRU 4 2 4 32 :: 32 word lru_store)"
    unfolding LRU_simps by (rule lru_new_inv) simp_all
  have n: "BP_new TwoBit_example LRU 4 2 32 = Inr twobit_table_example"
    by code_simp
  from n i have "BP_inv (lru_inv 2 (4 div 2)) 2 (4 div 2) twobit_table_example"
    by (rule BP_new_inv [where I = "lru_inv 2 (4 div 2)"])
  then show ?thesis by simp
qed

lemma twobit_floor_example_run:
  "BP_run TwoBit_example LRU twobit_table_example
     [Call_update not_taken_example, Call_update not_taken_example, Call_update not_taken_example] =
   Inr twobit_floor_example"
  by code_simp

lemma twobit_floor_example_inv: "BP_inv (lru_inv 2 2) 2 2 twobit_floor_example"
  using LRU_contract twobit_table_example_inv twobit_floor_example_run by (rule BP_run_inv)

lemma TwoBit_step:
  assumes c: "store_contract C I W S" and inv: "BP_inv I W S bp" and e: "entry_of C bp a = Some e"
  shows "\<exists>bp' e'. BP_update (BPEntryTwoBit cold) C bp \<lparr>pc = a, is_taken = tk, target = tg\<rparr> = Inr bp' \<and>
     BP_inv I W S bp' \<and> entry_of C bp' a = Some e' \<and>
     tb_state e' = counter_train tk (tb_state e) \<and>
     BP_is_taken (BPEntryTwoBit cold) C bp' a = Inr (counter_taken (counter_train tk (tb_state e)))"
  using BP_update_then_query [OF c inv, of "BPEntryTwoBit cold" "\<lparr>pc = a, is_taken = tk, target = tg\<rparr>"] e
  unfolding trained_TwoBit by (auto simp: BPEntryTwoBit_def)

lemma counter_level_train:
  "counter_level (counter_train True c) = min 3 (counter_level c + 1)"
  "counter_level (counter_train False c) = counter_level c - 1"
  by (cases c; simp)+

section \<open>The claims\<close>

text \<open>
  Claim C1, as amended. Whatever the table and the event, \<^verbatim>\<open>update\<close> looks the event's address
  up with the touching \<^verbatim>\<open>read\<close>; on a hit its coordinate is the way returned and the set of the
  address, on a miss the way \<^verbatim>\<open>write\<close> returns and that set. When the coordinate lies inside
  the entry array, the call returns: after a hit the entry there is one
  \<^verbatim>\<open>update( is_taken, target)\<close> of what it was; after a miss it is one
  \<^verbatim>\<open>update( is_taken, target)\<close> of the entry reset and then seeded with the event's target; in
  both cases the store is left as the last store call left it and no other entry changes.
  When the coordinate lies outside the entry array the call indexes out of range and trains
  nothing. It has no other way not to return.
\<close>

theorem BP_update_steps:
  fixes T :: "('e, 'a::len word) BPEntry" and C :: "('t, 'a word) CacheTagArray"
  shows
  "(\<forall>way tags1 e.
      cta_read C (tags bp) (pc bp_upd) = ((True, way), tags1) \<longrightarrow>
      entry_at (data bp) way (cta_set C (tags bp) (pc bp_upd)) = Inr e \<longrightarrow>
      (\<exists>bp'. BP_update T C bp bp_upd = Inr bp' \<and> tags bp' = tags1 \<and>
         entry_at (data bp') way (cta_set C (tags bp) (pc bp_upd)) =
           Inr (entry_update T e (is_taken bp_upd) (target bp_upd)) \<and>
         (\<forall>way' st'. (way', st') \<noteq> (way, cta_set C (tags bp) (pc bp_upd)) \<longrightarrow>
            entry_at (data bp') way' st' = entry_at (data bp) way' st'))) \<and>
   (\<forall>way0 tags1 way tags2 e.
      cta_read C (tags bp) (pc bp_upd) = ((False, way0), tags1) \<longrightarrow>
      cta_write C tags1 (pc bp_upd) = (way, tags2) \<longrightarrow>
      entry_at (data bp) way (cta_set C (tags bp) (pc bp_upd)) = Inr e \<longrightarrow>
      (\<exists>bp'. BP_update T C bp bp_upd = Inr bp' \<and> tags bp' = tags2 \<and>
         entry_at (data bp') way (cta_set C (tags bp) (pc bp_upd)) =
           Inr (entry_update T (entry_update_target T (entry_reset T e) (target bp_upd))
                  (is_taken bp_upd) (target bp_upd)) \<and>
         (\<forall>way' st'. (way', st') \<noteq> (way, cta_set C (tags bp) (pc bp_upd)) \<longrightarrow>
            entry_at (data bp') way' st' = entry_at (data bp) way' st'))) \<and>
   (\<forall>way tags1 err.
      cta_read C (tags bp) (pc bp_upd) = ((True, way), tags1) \<longrightarrow>
      entry_at (data bp) way (cta_set C (tags bp) (pc bp_upd)) = Inl err \<longrightarrow>
      BP_update T C bp bp_upd = Inl OutOfBounds) \<and>
   (\<forall>way0 tags1 way tags2 err.
      cta_read C (tags bp) (pc bp_upd) = ((False, way0), tags1) \<longrightarrow>
      cta_write C tags1 (pc bp_upd) = (way, tags2) \<longrightarrow>
      entry_at (data bp) way (cta_set C (tags bp) (pc bp_upd)) = Inl err \<longrightarrow>
      BP_update T C bp bp_upd = Inl OutOfBounds) \<and>
   (\<forall>err. BP_update T C bp bp_upd = Inl err \<longrightarrow> err = OutOfBounds)"
proof (intro conjI allI impI)
  fix way tags1 err
  assume r: "cta_read C (tags bp) (pc bp_upd) = ((True, way), tags1)"
    and e: "entry_at (data bp) way (cta_set C (tags bp) (pc bp_upd)) = Inl err"
  from e have "err = OutOfBounds" by (simp add: entry_at_Inl)
  with e have "entry_at (data bp) way (cta_set C (tags bp) (pc bp_upd)) = Inl OutOfBounds"
    by simp
  with r show "BP_update T C bp bp_upd = Inl OutOfBounds"
    by (simp add: BP_update_def Let_def train_at_def)
next
  fix way0 tags1 way tags2 err
  assume r: "cta_read C (tags bp) (pc bp_upd) = ((False, way0), tags1)"
    and w: "cta_write C tags1 (pc bp_upd) = (way, tags2)"
    and e: "entry_at (data bp) way (cta_set C (tags bp) (pc bp_upd)) = Inl err"
  from e have "err = OutOfBounds" by (simp add: entry_at_Inl)
  with e have "entry_at (data bp) way (cta_set C (tags bp) (pc bp_upd)) = Inl OutOfBounds"
    by simp
  with r w show "BP_update T C bp bp_upd = Inl OutOfBounds"
    by (simp add: BP_update_def Let_def)
next
  fix way tags1 e
  assume r: "cta_read C (tags bp) (pc bp_upd) = ((True, way), tags1)"
    and e: "entry_at (data bp) way (cta_set C (tags bp) (pc bp_upd)) = Inr e"
  from e have b: "way < length (data bp)" "cta_set C (tags bp) (pc bp_upd) < length (data bp ! way)"
    by (simp_all add: entry_at_Inr)
  show "\<exists>bp'. BP_update T C bp bp_upd = Inr bp' \<and> tags bp' = tags1 \<and>
         entry_at (data bp') way (cta_set C (tags bp) (pc bp_upd)) =
           Inr (entry_update T e (is_taken bp_upd) (target bp_upd)) \<and>
         (\<forall>way' st'. (way', st') \<noteq> (way, cta_set C (tags bp) (pc bp_upd)) \<longrightarrow>
            entry_at (data bp') way' st' = entry_at (data bp) way' st')"
    unfolding BP_update_hit [OF r e] using b by (auto simp: entry_at_put)
next
  fix way0 tags1 way tags2 e
  assume r: "cta_read C (tags bp) (pc bp_upd) = ((False, way0), tags1)"
    and w: "cta_write C tags1 (pc bp_upd) = (way, tags2)"
    and e: "entry_at (data bp) way (cta_set C (tags bp) (pc bp_upd)) = Inr e"
  from e have b: "way < length (data bp)" "cta_set C (tags bp) (pc bp_upd) < length (data bp ! way)"
    by (simp_all add: entry_at_Inr)
  show "\<exists>bp'. BP_update T C bp bp_upd = Inr bp' \<and> tags bp' = tags2 \<and>
         entry_at (data bp') way (cta_set C (tags bp) (pc bp_upd)) =
           Inr (entry_update T (entry_update_target T (entry_reset T e) (target bp_upd))
                  (is_taken bp_upd) (target bp_upd)) \<and>
         (\<forall>way' st'. (way', st') \<noteq> (way, cta_set C (tags bp) (pc bp_upd)) \<longrightarrow>
            entry_at (data bp') way' st' = entry_at (data bp) way' st')"
    unfolding BP_update_miss [OF r w e] using b by (auto simp: entry_at_put)
next
  fix err assume "BP_update T C bp bp_upd = Inl err"
  then show "err = OutOfBounds" by (rule BP_update_Inl)
qed

theorem BP_update_steps_witness:
  "(\<exists>bp'. BP_update OneBit_example LRU table_example upd_example = Inr bp' \<and>
      entry_at (data bp') 0 1 = Inr \<lparr>ob_target = 28, ob_taken = True\<rparr> \<and>
      entry_at (data bp') 1 1 = entry_at (data table_example) 1 1) \<and>
   (\<exists>bp'. BP_update OneBit_example LRU trained_example \<lparr>pc = 12, is_taken = False, target = 40\<rparr> =
        Inr bp' \<and>
      tags bp' = tags trained_example \<and>
      entry_at (data bp') 0 1 = Inr \<lparr>ob_target = 40, ob_taken = False\<rparr> \<and>
      entry_at (data bp') 1 1 = entry_at (data trained_example) 1 1)"
proof -
  have r: "cta_read LRU (tags table_example) (pc upd_example) = ((False, 0), tags table_example)"
    by code_simp
  have w: "cta_write LRU (tags table_example) (pc upd_example) =
      (0, (tags table_example)\<lparr>lru_sets := [[(0, None), (1, None)], [(1, None), (0, Some 12)]]\<rparr>)"
    by code_simp
  have s: "cta_set LRU (tags table_example) (pc upd_example) = 1"
    by code_simp
  have e: "entry_at (data table_example) 0 1 = Inr (cold_OneBit cold_example)"
    by code_simp
  have t: "entry_update OneBit_example
       (entry_update_target OneBit_example (entry_reset OneBit_example (cold_OneBit cold_example))
          (target upd_example)) (is_taken upd_example) (target upd_example) =
       \<lparr>ob_target = 28, ob_taken = True\<rparr>"
    by code_simp
  from BP_update_steps [of LRU table_example upd_example OneBit_example] r w s e t
  have miss: "\<exists>bp'. BP_update OneBit_example LRU table_example upd_example = Inr bp' \<and>
      entry_at (data bp') 0 1 = Inr \<lparr>ob_target = 28, ob_taken = True\<rparr> \<and>
      entry_at (data bp') 1 1 = entry_at (data table_example) 1 1"
    by fastforce
  let ?u = "\<lparr>pc = 12, is_taken = False, target = 40\<rparr> :: 32 word BPInterface"
  have r': "cta_read LRU (tags trained_example) (pc ?u) = ((True, 0), tags trained_example)"
    by code_simp
  have s': "cta_set LRU (tags trained_example) (pc ?u) = 1"
    by code_simp
  have e': "entry_at (data trained_example) 0 1 = Inr \<lparr>ob_target = 28, ob_taken = True\<rparr>"
    by code_simp
  have t': "entry_update OneBit_example \<lparr>ob_target = 28, ob_taken = True\<rparr> (is_taken ?u) (target ?u) =
       \<lparr>ob_target = 40, ob_taken = False\<rparr>"
    by code_simp
  from BP_update_steps [of LRU trained_example ?u OneBit_example] r' s' e' t'
  have hit: "\<exists>bp'. BP_update OneBit_example LRU trained_example ?u = Inr bp' \<and>
      tags bp' = tags trained_example \<and>
      entry_at (data bp') 0 1 = Inr \<lparr>ob_target = 40, ob_taken = False\<rparr> \<and>
      entry_at (data bp') 1 1 = entry_at (data trained_example) 1 1"
    by fastforce
  from miss hit show ?thesis by (rule conjI)
qed

text \<open>On a table whose columns have no rows (here no entries in one way) \<^verbatim>\<open>update\<close> trains no
  entry and does not return: the claim as stated, for every table state, fails there.\<close>

theorem BP_update_outside_the_array:
  "BP_new OneBit_example LRU 0 1 32 = Inr \<lparr>data = [[]], tags = lru_new 0 1 4 32\<rparr> \<and>
   BP_update OneBit_example LRU \<lparr>data = [[]], tags = lru_new 0 1 4 32\<rparr> upd_example =
     Inl OutOfBounds"
proof -
  have "BP_new OneBit_example LRU 0 1 32 = Inr \<lparr>data = [[]], tags = lru_new 0 1 4 32\<rparr>"
    by code_simp
  moreover have "BP_update OneBit_example LRU \<lparr>data = [[]], tags = lru_new 0 1 4 32\<rparr>
      upd_example = Inl OutOfBounds"
    by (rule BP_update_no_rows) simp
  ultimately show ?thesis by simp
qed

text \<open>
  Claim C7. \<^verbatim>\<open>get_bp_info\<close> returns the address with the answers of \<^verbatim>\<open>is_taken\<close> and
  \<^verbatim>\<open>get_target\<close>, and that result is the one derived from a single \<^verbatim>\<open>read_no_touch\<close>: the
  source's repeated lookups and the single-lookup derivation agree on every table, every
  store and every entry class, undefined accesses included.
\<close>

theorem BP_get_bp_info_single_lookup:
  "BP_get_bp_info T C bp PC = get_bp_info_single_lookup T C bp PC \<and>
   (\<forall>t g. BP_is_taken T C bp PC = Inr t \<longrightarrow> BP_get_target T C bp PC = Inr g \<longrightarrow>
      BP_get_bp_info T C bp PC = Inr \<lparr>pc = PC, is_taken = t, target = g\<rparr>)"
  by (auto simp: BP_get_bp_info_def get_bp_info_single_lookup_def BP_get_target_def BP_is_taken_def Let_def
      split: prod.splits sum.splits bool.splits)

theorem BP_get_bp_info_single_lookup_witness:
  "BP_is_taken OneBit_example LRU table_example 12 = Inr False \<and>
   BP_get_target OneBit_example LRU table_example 12 = Inr 16 \<and>
   BP_get_bp_info OneBit_example LRU table_example 12 =
     Inr \<lparr>pc = 12, is_taken = False, target = 16\<rparr> \<and>
   get_bp_info_single_lookup OneBit_example LRU table_example 12 =
     Inr \<lparr>pc = 12, is_taken = False, target = 16\<rparr>"
proof -
  have t: "BP_is_taken OneBit_example LRU table_example 12 = Inr False"
    by code_simp
  have g: "BP_get_target OneBit_example LRU table_example 12 = Inr 16"
    by code_simp
  note both = BP_get_bp_info_single_lookup [of OneBit_example LRU table_example 12]
  from both t g have "BP_get_bp_info OneBit_example LRU table_example 12 =
      Inr \<lparr>pc = 12, is_taken = False, target = 16\<rparr>"
    by blast
  with both t g show ?thesis by simp
qed

text \<open>
  Claim C9. In every state reached from a new table by queries and updates, on a store that
  keeps its contract: an address the store reports as a hit has its coordinate inside the
  entry array; two different hit addresses never have the same coordinate; a query changes
  nothing; and an \<^verbatim>\<open>update\<close> leaves the address of the event resident at the coordinate it
  trained, holding one training of the entry the address had (or, after a miss, of the reset
  and seeded entry), while every other address still resident keeps its coordinate and its
  entry. So the entry found for a hit address is always the one trained for that address.
\<close>

theorem table_and_store_in_step:
  assumes "store_contract C I ways (size_in_entries div ways)"
    and "I (cta_new C size_in_entries ways 4 bits)"
    and "BP_new T C size_in_entries ways bits = Inr bp0"
    and "BP_run T C bp0 cs = Inr bp"
  shows
    "(\<forall>a w s. resident C bp a = Some (w, s) \<longrightarrow>
        w < ways \<and> s < size_in_entries div ways \<and> entry_at (data bp) w s = Inr (data bp ! w ! s)) \<and>
     (\<forall>a b c. resident C bp a = Some c \<longrightarrow> resident C bp b = Some c \<longrightarrow> a = b) \<and>
     (\<forall>c. is_query c \<longrightarrow> BP_call T C bp c = Inr bp) \<and>
     (\<forall>bp_upd. \<exists>bp' w. BP_update T C bp bp_upd = Inr bp' \<and>
        resident C bp' (pc bp_upd) = Some (w, cta_set C (tags bp) (pc bp_upd)) \<and>
        entry_of C bp' (pc bp_upd) = Some (trained_entry T C bp bp_upd w) \<and>
        (\<forall>w0 s0. resident C bp (pc bp_upd) = Some (w0, s0) \<longrightarrow> w0 = w) \<and>
        (\<forall>b c. b \<noteq> pc bp_upd \<longrightarrow> resident C bp' b = Some c \<longrightarrow>
           resident C bp b = Some c \<and> entry_of C bp' b = entry_of C bp b))"
proof -
  have inv0: "BP_inv I ways (size_in_entries div ways) bp0"
    using assms(3,2) by (rule BP_new_inv)
  have inv: "BP_inv I ways (size_in_entries div ways) bp"
    using assms(1) inv0 assms(4) by (rule BP_run_inv)
  have 1: "\<forall>a w s. resident C bp a = Some (w, s) \<longrightarrow>
        w < ways \<and> s < size_in_entries div ways \<and> entry_at (data bp) w s = Inr (data bp ! w ! s)"
    using resident_in_range [OF assms(1) inv] by blast
  have 2: "\<forall>a b c. resident C bp a = Some c \<longrightarrow> resident C bp b = Some c \<longrightarrow> a = b"
    using resident_injective [OF assms(1) inv] by blast
  have 3: "\<forall>c. is_query c \<longrightarrow> BP_call T C bp c = Inr bp"
    using BP_call_query [OF assms(1) inv] by blast
  have 4: "\<forall>bp_upd. \<exists>bp' w. BP_update T C bp bp_upd = Inr bp' \<and>
        resident C bp' (pc bp_upd) = Some (w, cta_set C (tags bp) (pc bp_upd)) \<and>
        entry_of C bp' (pc bp_upd) = Some (trained_entry T C bp bp_upd w) \<and>
        (\<forall>w0 s0. resident C bp (pc bp_upd) = Some (w0, s0) \<longrightarrow> w0 = w) \<and>
        (\<forall>b c. b \<noteq> pc bp_upd \<longrightarrow> resident C bp' b = Some c \<longrightarrow>
           resident C bp b = Some c \<and> entry_of C bp' b = entry_of C bp b)"
  proof
    fix bp_upd
    from BP_update_resident [OF assms(1) inv, of T bp_upd]
    show "\<exists>bp' w. BP_update T C bp bp_upd = Inr bp' \<and>
        resident C bp' (pc bp_upd) = Some (w, cta_set C (tags bp) (pc bp_upd)) \<and>
        entry_of C bp' (pc bp_upd) = Some (trained_entry T C bp bp_upd w) \<and>
        (\<forall>w0 s0. resident C bp (pc bp_upd) = Some (w0, s0) \<longrightarrow> w0 = w) \<and>
        (\<forall>b c. b \<noteq> pc bp_upd \<longrightarrow> resident C bp' b = Some c \<longrightarrow>
           resident C bp b = Some c \<and> entry_of C bp' b = entry_of C bp b)"
      by blast
  qed
  from 1 2 3 4 show ?thesis by (intro conjI)
qed

theorem table_and_store_in_step_witness:
  "BP_run OneBit_example LRU table_example [Call_update upd_example] = Inr trained_example \<and>
   resident LRU trained_example 12 = Some (0, 1) \<and>
   entry_at (data trained_example) 0 1 = Inr \<lparr>ob_target = 28, ob_taken = True\<rparr> \<and>
   resident LRU trained_example 44 \<noteq> Some (0, 1) \<and>
   BP_call OneBit_example LRU trained_example (Call_get_target 44) = Inr trained_example"
proof -
  have i: "lru_inv 2 (4 div 2) (cta_new LRU 4 2 4 32 :: 32 word lru_store)"
    unfolding LRU_simps by (rule lru_new_inv) simp_all
  have n: "BP_new OneBit_example LRU 4 2 32 = Inr table_example"
    by code_simp
  have r: "BP_run OneBit_example LRU table_example [Call_update upd_example] = Inr trained_example"
    by code_simp
  have h: "resident LRU trained_example 12 = Some (0, 1)"
    by code_simp
  have e: "data trained_example ! 0 ! 1 = \<lparr>ob_target = 28, ob_taken = True\<rparr>"
    by code_simp
  note step = table_and_store_in_step [OF LRU_contract i n r]
  have 1: "entry_at (data trained_example) 0 1 = Inr \<lparr>ob_target = 28, ob_taken = True\<rparr>"
    using step [THEN conjunct1, rule_format, OF h] e by simp
  have 2: "resident LRU trained_example 44 \<noteq> Some (0, 1)"
    using step [THEN conjunct2, THEN conjunct1, rule_format, OF h, of 44] by auto
  have 3: "BP_call OneBit_example LRU trained_example (Call_get_target 44) = Inr trained_example"
    by (rule step [THEN conjunct2, THEN conjunct2, THEN conjunct1, rule_format]) simp
  from r h 1 2 3 show ?thesis by (intro conjI)
qed

text \<open>
  Claim C3. On a store that reports no hit when new: a table as the constructor leaves it,
  for any entry class, stays as it is under any sequence of queries and answers every
  address \<open>a\<close> with not taken and target \<open>a + 4\<close>; and so does the handle the factory
  returns, for each of its five algorithms.
\<close>

theorem cold_table:
  assumes "store_cold C"
  shows
    "(BP_new T C size_in_entries ways bits = Inr bp \<longrightarrow> (\<forall>c \<in> set cs. is_query c) \<longrightarrow>
        BP_run T C bp cs = Inr bp \<and>
        BP_is_taken T C bp a = Inr False \<and> BP_get_target T C bp a = Inr (a + 4)) \<and>
     (BPFactory_create C K name size_in_entries ways bits = Inr h \<longrightarrow>
        BaseBP_is_taken C K h a = Inr False \<and> BaseBP_get_target C K h a = Inr (a + 4))"
proof (intro conjI impI)
  assume n: "BP_new T C size_in_entries ways bits = Inr bp" and q: "\<forall>c \<in> set cs. is_query c"
  have miss: "\<forall>a. \<not> fst (cta_read_no_touch C (tags bp) a)"
    using BP_new_cold [OF assms n] by blast
  from miss q show "BP_run T C bp cs = Inr bp" by (rule BP_run_queries_cold)
  from miss show "BP_is_taken T C bp a = Inr False" by (simp add: BP_is_taken_miss)
  from miss show "BP_get_target T C bp a = Inr (a + 4)" by (simp add: BP_get_target_miss)
next
  assume "BPFactory_create C K name size_in_entries ways bits = Inr h"
  then obtain alg where "BPCreator_create C K alg size_in_entries ways bits = Inr h"
    by (auto simp: BPFactory_create_def split: option.splits)
  from BaseBP_cold [OF assms this]
  show "BaseBP_is_taken C K h a = Inr False" "BaseBP_get_target C K h a = Inr (a + 4)"
    by simp_all
qed

theorem cold_table_witness:
  "BPFactory_create LRU cold_example ''dynamic_one_bit'' 4 2 32 = Inr (BP_OneBit table_example) \<and>
   BaseBP_is_taken LRU cold_example (BP_OneBit table_example) 12 = Inr False \<and>
   BaseBP_get_target LRU cold_example (BP_OneBit table_example) 12 = Inr 16"
proof -
  have c: "BPFactory_create LRU cold_example ''dynamic_one_bit'' 4 2 32 = Inr (BP_OneBit table_example)"
    by code_simp
  from cold_table [OF LRU_cold, THEN conjunct2, rule_format, OF c, of 12] c
  show ?thesis by simp
qed

text \<open>
  Claim C6, as amended. For a recognized name and \<open>ways\<close> other than zero, \<^verbatim>\<open>create\<close> returns a
  table whose entry array has \<open>ways\<close> columns of \<open>size_in_entries div ways\<close> rows each (the
  remainder of the division is dropped), and whose store was constructed with the arguments
  \<open>size_in_entries\<close>, \<open>ways\<close>, 4 and \<open>branch_ip_size_in_bits\<close>, which is 32 when left out.
\<close>

theorem BPFactory_create_shape:
  assumes "name \<in> recognized_names" "ways \<noteq> 0"
  shows "\<exists>h. BPFactory_create C K name size_in_entries ways bits = Inr h \<and>
     BaseBP_shape h = replicate ways (size_in_entries div ways) \<and>
     ways * (size_in_entries div ways) \<le> size_in_entries \<and>
     size_in_entries < ways * (size_in_entries div ways) + ways \<and>
     BaseBP_tags h = cta_new C size_in_entries ways 4 bits \<and>
     BPFactory_create_default C K name size_in_entries ways =
       BPFactory_create C K name size_in_entries ways 32"
proof -
  from assms(1) obtain alg where a: "map_of BPFactory_map name = Some alg"
    by (auto simp: map_of_recognized)
  from BPCreator_create_Inr [OF assms(2), of C K alg size_in_entries bits] obtain h where
    h: "BPCreator_create C K alg size_in_entries ways bits = Inr h"
      "BaseBP_shape h = replicate ways (size_in_entries div ways)"
      "BaseBP_tags h = cta_new C size_in_entries ways 4 bits"
    by blast
  have "ways * (size_in_entries div ways) \<le> size_in_entries" by simp
  moreover have "size_in_entries < ways * (size_in_entries div ways) + ways"
    using assms(2) by (metis add.commute dividend_less_times_div neq0_conv)
  ultimately show ?thesis
    using a h by (simp add: BPFactory_create_def BPFactory_create_default_def)
qed

theorem BPFactory_create_shape_witness:
  "''dynamic_two_bit'' \<in> recognized_names \<and> (3::nat) \<noteq> 0 \<and>
   (\<exists>h. BPFactory_create LRU cold_example ''dynamic_two_bit'' 128 3 32 = Inr h \<and>
      BaseBP_shape h = [42, 42, 42] \<and>
      lru_line_size (BaseBP_tags h) = 4 \<and> lru_addr_bits (BaseBP_tags h) = 32)"
proof -
  have n: "''dynamic_two_bit'' \<in> recognized_names" by (simp add: recognized_names_def)
  have w: "(3::nat) \<noteq> 0" by simp
  from BPFactory_create_shape [OF n w, where C = LRU and K = cold_example
      and size_in_entries = 128 and bits = 32]
  obtain h where h: "BPFactory_create LRU cold_example ''dynamic_two_bit'' 128 3 32 = Inr h"
    "BaseBP_shape h = replicate 3 (128 div 3)"
    "BaseBP_tags h = cta_new LRU 128 3 4 32"
    by blast
  have "replicate 3 ((128::nat) div 3) = [42, 42, 42]" by code_simp
  with h n w show ?thesis by (auto simp: lru_new_def)
qed

text \<open>With \<open>ways = 0\<close> the constructor divides by zero before anything is built: the claim as
  stated, for all parameters, fails there.\<close>

theorem BPFactory_create_zero_ways:
  "BPFactory_create LRU cold_example ''dynamic_two_bit'' 128 0 32 = Inl DivisionByZero"
  by (simp add: BPFactory_create_def map_of_BPFactory_map BPCreator_create_zero)

text \<open>
  Claim C5, as amended. For a name outside the five, \<^verbatim>\<open>create\<close> writes the name and the five
  recognized names (in the order of the map) to the error stream and exits with
  \<^verbatim>\<open>EXIT_FAILURE\<close>. For a recognized name and \<open>ways\<close> other than zero it returns a handle
  that, on a store that reports no hit when new, answers every query at once.
\<close>

theorem BPFactory_create_fatal_or_handle:
  "(name \<notin> recognized_names \<longrightarrow>
      BPFactory_create C K name size_in_entries ways bits =
        Inl (ProcessExit
               (''ERROR. Invalid branch prediction mode '' @ name @ endl @
                ''Supported modes:'' @ endl @
                tab @ ''adaptive_two_level'' @ endl @
                tab @ ''dynamic_one_bit'' @ endl @
                tab @ ''dynamic_two_bit'' @ endl @
                tab @ ''static_always_taken'' @ endl @
                tab @ ''static_backward_jumps'' @ endl)
               EXIT_FAILURE)) \<and>
   (name \<in> recognized_names \<longrightarrow> ways \<noteq> 0 \<longrightarrow> store_cold C \<longrightarrow>
      (\<exists>h. BPFactory_create C K name size_in_entries ways bits = Inr h \<and>
         (\<forall>PC. \<exists>t g. BaseBP_is_taken C K h PC = Inr t \<and> BaseBP_get_target C K h PC = Inr g \<and>
            BaseBP_get_bp_info C K h PC = Inr \<lparr>pc = PC, is_taken = t, target = g\<rparr>)))"
proof (intro conjI impI)
  assume "name \<notin> recognized_names"
  then show "BPFactory_create C K name size_in_entries ways bits =
        Inl (ProcessExit
               (''ERROR. Invalid branch prediction mode '' @ name @ endl @
                ''Supported modes:'' @ endl @
                tab @ ''adaptive_two_level'' @ endl @
                tab @ ''dynamic_one_bit'' @ endl @
                tab @ ''dynamic_two_bit'' @ endl @
                tab @ ''static_always_taken'' @ endl @
                tab @ ''static_backward_jumps'' @ endl)
               EXIT_FAILURE)"
    unfolding invalid_mode_message_eq [symmetric]
    by (simp add: BPFactory_create_def map_of_unrecognized)
next
  assume n: "name \<in> recognized_names" and w: "ways \<noteq> 0" and c: "store_cold C"
  from n obtain alg where a: "map_of BPFactory_map name = Some alg"
    by (auto simp: map_of_recognized)
  from BPCreator_create_Inr [OF w, of C K alg size_in_entries bits] obtain h where
    h: "BPCreator_create C K alg size_in_entries ways bits = Inr h" by blast
  have q: "BaseBP_is_taken C K h PC = Inr False \<and> BaseBP_get_target C K h PC = Inr (PC + 4)" for PC
    by (rule BaseBP_cold [OF c h])
  have i: "BaseBP_get_bp_info C K h PC = Inr \<lparr>pc = PC, is_taken = False, target = PC + 4\<rparr>" for PC
    using q [of PC] by (cases h) (simp_all add: BP_get_bp_info_def)
  show "\<exists>h. BPFactory_create C K name size_in_entries ways bits = Inr h \<and>
         (\<forall>PC. \<exists>t g. BaseBP_is_taken C K h PC = Inr t \<and> BaseBP_get_target C K h PC = Inr g \<and>
            BaseBP_get_bp_info C K h PC = Inr \<lparr>pc = PC, is_taken = t, target = g\<rparr>)"
    using a h q i by (auto simp: BPFactory_create_def)
qed

theorem BPFactory_create_fatal_or_handle_witness:
  "''bogus_name'' \<notin> recognized_names \<and>
   BPFactory_create LRU cold_example ''bogus_name'' 64 4 32 =
     Inl (ProcessExit
            (''ERROR. Invalid branch prediction mode bogus_name'' @ endl @
             ''Supported modes:'' @ endl @
             tab @ ''adaptive_two_level'' @ endl @
             tab @ ''dynamic_one_bit'' @ endl @
             tab @ ''dynamic_two_bit'' @ endl @
             tab @ ''static_always_taken'' @ endl @
             tab @ ''static_backward_jumps'' @ endl)
            EXIT_FAILURE) \<and>
   ''dynamic_two_bit'' \<in> recognized_names \<and> (4::nat) \<noteq> 0 \<and> store_cold LRU \<and>
   (\<exists>h. BPFactory_create LRU cold_example ''dynamic_two_bit'' 128 4 32 = Inr h \<and>
      (\<exists>t g. BaseBP_is_taken LRU cold_example h 12 = Inr t \<and>
         BaseBP_get_target LRU cold_example h 12 = Inr g \<and>
         BaseBP_get_bp_info LRU cold_example h 12 = Inr \<lparr>pc = 12, is_taken = t, target = g\<rparr>))"
proof -
  have b: "''bogus_name'' \<notin> recognized_names" by (simp add: recognized_names_def)
  have n: "''dynamic_two_bit'' \<in> recognized_names" by (simp add: recognized_names_def)
  have w: "(4::nat) \<noteq> 0" by simp
  note f = BPFactory_create_fatal_or_handle [where name = "''bogus_name''" and C = LRU
      and K = cold_example and size_in_entries = 64 and ways = 4 and bits = 32,
      THEN conjunct1, rule_format, OF b]
  note g = BPFactory_create_fatal_or_handle [where name = "''dynamic_two_bit''" and C = LRU
      and K = cold_example and size_in_entries = 128 and ways = 4 and bits = 32,
      THEN conjunct2, rule_format, OF n w LRU_cold]
  from g obtain h where h: "BPFactory_create LRU cold_example ''dynamic_two_bit'' 128 4 32 = Inr h"
    "\<forall>PC. \<exists>t g. BaseBP_is_taken LRU cold_example h PC = Inr t \<and>
       BaseBP_get_target LRU cold_example h PC = Inr g \<and>
       BaseBP_get_bp_info LRU cold_example h PC = Inr \<lparr>pc = PC, is_taken = t, target = g\<rparr>"
    by blast
  from h(2) have "\<exists>t g. BaseBP_is_taken LRU cold_example h 12 = Inr t \<and>
         BaseBP_get_target LRU cold_example h 12 = Inr g \<and>
         BaseBP_get_bp_info LRU cold_example h 12 = Inr \<lparr>pc = 12, is_taken = t, target = g\<rparr>"
    by (rule spec)
  with h(1) have "\<exists>h. BPFactory_create LRU cold_example ''dynamic_two_bit'' 128 4 32 = Inr h \<and>
      (\<exists>t g. BaseBP_is_taken LRU cold_example h 12 = Inr t \<and>
         BaseBP_get_target LRU cold_example h 12 = Inr g \<and>
         BaseBP_get_bp_info LRU cold_example h 12 = Inr \<lparr>pc = 12, is_taken = t, target = g\<rparr>)"
    by blast
  with b n w LRU_cold f show ?thesis by simp
qed

text \<open>A recognized name alone does not give a handle: with \<open>ways = 0\<close> the call divides by
  zero.\<close>

theorem BPFactory_create_default_zero_ways:
  "BPFactory_create_default LRU cold_example ''static_always_taken'' 64 0 = Inl DivisionByZero"
  by (simp add: BPFactory_create_default_def BPFactory_create_def map_of_BPFactory_map
      BPCreator_create_zero)

text \<open>
  Claim C10, as amended. On the store with least-recently-used replacement, for a table
  constructed with \<open>0 < ways \<le> size_in_entries\<close>: every sequence of queries and updates
  runs without an access outside the entry array, and in the state it reaches the array has
  \<open>ways\<close> columns of \<open>size_in_entries div ways\<close> rows, the set of every address is below
  \<open>size_in_entries div ways\<close>, the ways returned by \<^verbatim>\<open>read_no_touch\<close>, \<^verbatim>\<open>read\<close> and (after
  the read) \<^verbatim>\<open>write\<close> are below \<open>ways\<close>, and every query and every update returns.
\<close>

theorem entry_array_in_bounds:
  fixes T :: "('e, 'a::len word) BPEntry"
  assumes "0 < ways" "ways \<le> size_in_entries"
    and "BP_new T LRU size_in_entries ways bits = Inr bp0"
  shows "\<exists>bp. BP_run T LRU bp0 cs = Inr bp \<and>
     map length (data bp) = replicate ways (size_in_entries div ways) \<and>
     (\<forall>PC. lru_set (tags bp) PC < size_in_entries div ways \<and>
        snd (lru_read_no_touch (tags bp) PC) < ways \<and>
        snd (fst (lru_read (tags bp) PC)) < ways \<and>
        fst (lru_write (snd (lru_read (tags bp) PC)) PC) < ways \<and>
        (\<exists>t g. BP_is_taken T LRU bp PC = Inr t \<and> BP_get_target T LRU bp PC = Inr g)) \<and>
     (\<forall>bp_upd. \<exists>bp'. BP_update T LRU bp bp_upd = Inr bp')"
proof -
  let ?W = ways and ?S = "size_in_entries div ways"
  note c = LRU_contract [of ?W ?S]
  have i: "lru_inv ?W ?S (cta_new LRU size_in_entries ways 4 bits :: 'a word lru_store)"
    unfolding LRU_simps using assms(1,2) by (rule lru_new_inv)
  have inv0: "BP_inv (lru_inv ?W ?S) ?W ?S bp0" using assms(3) i by (rule BP_new_inv)
  from BP_run_total [OF c inv0, of T cs] obtain bp where
    r: "BP_run T LRU bp0 cs = Inr bp" and inv: "BP_inv (lru_inv ?W ?S) ?W ?S bp"
    by blast
  have I: "lru_inv ?W ?S (tags bp)" using inv by (rule BP_inv_tags)
  have sh: "map length (data bp) = replicate ?W ?S" using inv by (simp add: BP_inv_shape)
  have q: "lru_set (tags bp) PC < ?S \<and>
        snd (lru_read_no_touch (tags bp) PC) < ?W \<and>
        snd (fst (lru_read (tags bp) PC)) < ?W \<and>
        fst (lru_write (snd (lru_read (tags bp) PC)) PC) < ?W \<and>
        (\<exists>t g. BP_is_taken T LRU bp PC = Inr t \<and> BP_get_target T LRU bp PC = Inr g)" for PC
    using lru_set_lt [OF I] lru_peek_way_any [OF I] lru_write_way [OF lru_read_inv [OF I]]
    by (simp add: lru_read_fst BP_is_taken_entry_of [OF c inv] BP_get_target_entry_of [OF c inv])
  have u: "\<exists>bp'. BP_update T LRU bp bp_upd = Inr bp'" for bp_upd
    using BP_update_total [OF c inv, of T bp_upd] by blast
  from r sh q u show ?thesis by blast
qed

theorem entry_array_in_bounds_witness:
  "(0::nat) < 2 \<and> (2::nat) \<le> 4 \<and> BP_new OneBit_example LRU 4 2 32 = Inr table_example \<and>
   (\<exists>bp. BP_run OneBit_example LRU table_example
            [Call_update upd_example, Call_is_taken 12, Call_update upd_example] = Inr bp \<and>
      map length (data bp) = replicate 2 (4 div 2) \<and>
      lru_set (tags bp) 12 < 4 div 2 \<and> snd (lru_read_no_touch (tags bp) 12) < 2)"
proof -
  have n: "BP_new OneBit_example LRU 4 2 32 = Inr table_example" by code_simp
  from entry_array_in_bounds [of 2 4 OneBit_example 32 table_example
      "[Call_update upd_example, Call_is_taken 12, Call_update upd_example]", OF _ _ n] n
  show ?thesis by auto
qed

text \<open>With fewer entries than ways the columns have no rows, and \<^verbatim>\<open>update\<close> indexes outside
  them whatever the store answers (lemma \<open>BP_update_no_rows\<close>): the claim as stated, for all
  parameters, fails at 2 entries in 4 ways.\<close>

theorem entry_array_without_rows:
  "BP_new OneBit_example LRU 2 4 32 = Inr \<lparr>data = [[], [], [], []], tags = lru_new 2 4 4 32\<rparr> \<and>
   BP_update OneBit_example LRU \<lparr>data = [[], [], [], []], tags = lru_new 2 4 4 32\<rparr> upd_example =
     Inl OutOfBounds"
proof -
  have "BP_new OneBit_example LRU 2 4 32 = Inr \<lparr>data = [[], [], [], []], tags = lru_new 2 4 4 32\<rparr>"
    by code_simp
  moreover have "BP_update OneBit_example LRU \<lparr>data = [[], [], [], []], tags = lru_new 2 4 4 32\<rparr>
      upd_example = Inl OutOfBounds"
    by (rule BP_update_no_rows) simp
  ultimately show ?thesis by simp
qed

text \<open>
  Claim C2. The three queries do not depend on the store's \<^verbatim>\<open>read\<close> and \<^verbatim>\<open>write\<close> (they use
  \<^verbatim>\<open>read_no_touch\<close> and \<^verbatim>\<open>set\<close> only) and leave the table as it is. An \<^verbatim>\<open>update\<close> leaves the
  store as the touching \<^verbatim>\<open>read\<close> left it, or the \<^verbatim>\<open>write\<close> after it, whatever the direction and
  target; on the store with least-recently-used replacement the address of the event is
  then the most recently used of its set. In a table of one way and one entry, any number
  of queries leaves the table unchanged, while one \<^verbatim>\<open>update\<close> for another address makes the
  next query of the first address a miss: not taken, target \<open>a + 4\<close>.
\<close>

theorem queries_peek_update_touches:
  "BP_is_taken T (C\<lparr>cta_read := r, cta_write := w\<rparr>) bp a = BP_is_taken T C bp a \<and>
   BP_get_target T (C\<lparr>cta_read := r, cta_write := w\<rparr>) bp a = BP_get_target T C bp a \<and>
   BP_get_bp_info T (C\<lparr>cta_read := r, cta_write := w\<rparr>) bp a = BP_get_bp_info T C bp a \<and>
   (is_query c \<longrightarrow> BP_call T C bp c = Inr bp1 \<longrightarrow> bp1 = bp) \<and>
   (BP_update T C bp bp_upd = Inr bp2 \<longrightarrow>
      tags bp2 =
        (if fst (fst (cta_read C (tags bp) (pc bp_upd)))
         then snd (cta_read C (tags bp) (pc bp_upd))
         else snd (cta_write C (snd (cta_read C (tags bp) (pc bp_upd))) (pc bp_upd)))) \<and>
   (store_contract C I 1 1 \<longrightarrow> BP_inv I 1 1 bp \<longrightarrow> (\<forall>c \<in> set cs. is_query c) \<longrightarrow>
      a \<noteq> pc bp_upd \<longrightarrow>
      BP_run T C bp cs = Inr bp \<and>
      (\<exists>bp'. BP_update T C bp bp_upd = Inr bp' \<and>
         BP_is_taken T C bp' a = Inr False \<and> BP_get_target T C bp' a = Inr (a + 4))) \<and>
   (lru_inv W S (tags bl) \<longrightarrow> BP_update T LRU bl bp_upd = Inr bl' \<longrightarrow>
      (\<exists>way. last (lru_sets (tags bl') ! lru_set (tags bl) (pc bp_upd)) = (way, Some (pc bp_upd))))"
proof (intro conjI impI)
  show "BP_is_taken T (C\<lparr>cta_read := r, cta_write := w\<rparr>) bp a = BP_is_taken T C bp a"
    "BP_get_target T (C\<lparr>cta_read := r, cta_write := w\<rparr>) bp a = BP_get_target T C bp a"
    "BP_get_bp_info T (C\<lparr>cta_read := r, cta_write := w\<rparr>) bp a = BP_get_bp_info T C bp a"
    by (rule queries_ignore_read_write)+
next
  assume "is_query c" "BP_call T C bp c = Inr bp1"
  then show "bp1 = bp" by (rule BP_call_query_same)
next
  assume "BP_update T C bp bp_upd = Inr bp2"
  then show "tags bp2 =
        (if fst (fst (cta_read C (tags bp) (pc bp_upd)))
         then snd (cta_read C (tags bp) (pc bp_upd))
         else snd (cta_write C (snd (cta_read C (tags bp) (pc bp_upd))) (pc bp_upd)))"
    by (rule BP_update_tags)
next
  assume c: "store_contract C I 1 1" and inv: "BP_inv I 1 1 bp"
    and q: "\<forall>c \<in> set cs. is_query c" and ne: "a \<noteq> pc bp_upd"
  from c inv q show "BP_run T C bp cs = Inr bp" by (rule BP_run_queries)
  from c inv ne show "\<exists>bp'. BP_update T C bp bp_upd = Inr bp' \<and>
         BP_is_taken T C bp' a = Inr False \<and> BP_get_target T C bp' a = Inr (a + 4)"
    by (rule single_slot_eviction)
next
  assume "lru_inv W S (tags bl)" "BP_update T LRU bl bp_upd = Inr bl'"
  then show "\<exists>way. last (lru_sets (tags bl') ! lru_set (tags bl) (pc bp_upd)) =
      (way, Some (pc bp_upd))"
    by (rule BP_update_most_recent)
qed


theorem queries_peek_update_touches_witness:
  "BP_run OneBit_example LRU one_slot_example [Call_update upd_example] = Inr one_slot_trained \<and>
   BP_is_taken OneBit_example LRU one_slot_trained 12 = Inr True \<and>
   BP_get_target OneBit_example LRU one_slot_trained 12 = Inr 28 \<and>
   BP_run OneBit_example LRU one_slot_trained
     [Call_is_taken 16, Call_get_target 20, Call_get_bp_info 24, Call_is_taken 16] =
     Inr one_slot_trained \<and>
   (\<exists>bp'. BP_update OneBit_example LRU one_slot_trained other_upd_example = Inr bp' \<and>
      BP_is_taken OneBit_example LRU bp' 12 = Inr False \<and>
      BP_get_target OneBit_example LRU bp' 12 = Inr 16)"
proof -
  have i: "lru_inv 1 (1 div 1) (cta_new LRU 1 1 4 32 :: 32 word lru_store)"
    unfolding LRU_simps by (rule lru_new_inv) simp_all
  have n: "BP_new OneBit_example LRU 1 1 32 = Inr one_slot_example"
    by code_simp
  have r: "BP_run OneBit_example LRU one_slot_example [Call_update upd_example] = Inr one_slot_trained"
    by code_simp
  have inv0: "BP_inv (lru_inv 1 (1 div 1)) 1 (1 div 1) one_slot_example"
    using n i by (rule BP_new_inv [where I = "lru_inv 1 (1 div 1)"])
  have inv: "BP_inv (lru_inv 1 1) 1 1 one_slot_trained"
    using BP_run_inv [OF LRU_contract _ r, of 1 1] inv0 by simp
  have t: "BP_is_taken OneBit_example LRU one_slot_trained 12 = Inr True"
    "BP_get_target OneBit_example LRU one_slot_trained 12 = Inr 28"
    by code_simp+
  have q: "\<forall>c \<in> set [Call_is_taken 16, Call_get_target 20, Call_get_bp_info 24, Call_is_taken (16::32 word)].
      is_query c"
    by simp
  have ne: "(12::32 word) \<noteq> pc other_upd_example" by (simp add: other_upd_example_def)
  note th = queries_peek_update_touches [where C = LRU and I = "lru_inv 1 1" and T = OneBit_example
      and bp = one_slot_trained and a = 12 and bp_upd = other_upd_example
      and cs = "[Call_is_taken 16, Call_get_target 20, Call_get_bp_info 24, Call_is_taken 16]"]
  note slot = th [THEN conjunct2, THEN conjunct2, THEN conjunct2, THEN conjunct2, THEN conjunct2,
      THEN conjunct1, THEN mp, THEN mp, THEN mp, THEN mp, OF LRU_contract inv q ne]
  from slot r t show ?thesis by (intro conjI) simp_all
qed





text \<open>
  Claim C8. The two-bit counter predicts taken exactly in its two taken states; a taken
  training moves it one state up and stops at the ceiling, a not-taken training one state
  down and stops at the floor; the entry predicts by its counter and trains it by one step.
  In a table on a store that keeps its contract, from an entry at strongly-not-taken, three
  taken updates of its address pass weakly-not-taken and weakly-taken and reach
  strongly-taken, a fourth stays there, and a not-taken update then gives weakly-taken,
  still predicted taken.
\<close>

theorem TwoBit_saturating_counter:
  fixes C :: "('t, 'a::len word) CacheTagArray"
  shows
   "(counter_taken c \<longleftrightarrow> c = WeaklyTaken \<or> c = StronglyTaken) \<and>
    counter_level (counter_train True c) = min 3 (counter_level c + 1) \<and>
    counter_level (counter_train False c) = counter_level c - 1 \<and>
    entry_is_taken (BPEntryTwoBit cold) e PC = counter_taken (tb_state e) \<and>
    tb_state (entry_update (BPEntryTwoBit cold) e tk tg) = counter_train tk (tb_state e) \<and>
    (store_contract C I W S \<longrightarrow> BP_inv I W S bp \<longrightarrow> entry_of C bp a = Some e0 \<longrightarrow>
     tb_state e0 = StronglyNotTaken \<longrightarrow>
       (\<exists>bp1 bp2 bp3 bp4 bp5 e1 e2 e3 e4 e5.
          BP_update (BPEntryTwoBit cold) C bp \<lparr>pc = a, is_taken = True, target = tga\<rparr> = Inr bp1 \<and>
          entry_of C bp1 a = Some e1 \<and> tb_state e1 = WeaklyNotTaken \<and>
          BP_is_taken (BPEntryTwoBit cold) C bp1 a = Inr False \<and>
          BP_update (BPEntryTwoBit cold) C bp1 \<lparr>pc = a, is_taken = True, target = tgb\<rparr> = Inr bp2 \<and>
          entry_of C bp2 a = Some e2 \<and> tb_state e2 = WeaklyTaken \<and>
          BP_is_taken (BPEntryTwoBit cold) C bp2 a = Inr True \<and>
          BP_update (BPEntryTwoBit cold) C bp2 \<lparr>pc = a, is_taken = True, target = tgc\<rparr> = Inr bp3 \<and>
          entry_of C bp3 a = Some e3 \<and> tb_state e3 = StronglyTaken \<and>
          BP_is_taken (BPEntryTwoBit cold) C bp3 a = Inr True \<and>
          BP_update (BPEntryTwoBit cold) C bp3 \<lparr>pc = a, is_taken = True, target = tgd\<rparr> = Inr bp4 \<and>
          entry_of C bp4 a = Some e4 \<and> tb_state e4 = StronglyTaken \<and>
          BP_is_taken (BPEntryTwoBit cold) C bp4 a = Inr True \<and>
          BP_update (BPEntryTwoBit cold) C bp4 \<lparr>pc = a, is_taken = False, target = tge\<rparr> = Inr bp5 \<and>
          entry_of C bp5 a = Some e5 \<and> tb_state e5 = WeaklyTaken \<and>
          BP_is_taken (BPEntryTwoBit cold) C bp5 a = Inr True))"
proof (intro conjI impI)
  show "counter_taken c \<longleftrightarrow> c = WeaklyTaken \<or> c = StronglyTaken" by (cases c) simp_all
  show "counter_level (counter_train True c) = min 3 (counter_level c + 1)"
    "counter_level (counter_train False c) = counter_level c - 1"
    by (rule counter_level_train)+
  show "entry_is_taken (BPEntryTwoBit cold) e PC = counter_taken (tb_state e)"
    "tb_state (entry_update (BPEntryTwoBit cold) e tk tg) = counter_train tk (tb_state e)"
    by (simp_all add: BPEntryTwoBit_def)
next
  assume c: "store_contract C I W S" and inv: "BP_inv I W S bp"
    and e0: "entry_of C bp a = Some e0" and s0: "tb_state e0 = StronglyNotTaken"
  from TwoBit_step [OF c inv e0, of cold True tga] s0 obtain bp1 e1 where
    1: "BP_update (BPEntryTwoBit cold) C bp \<lparr>pc = a, is_taken = True, target = tga\<rparr> = Inr bp1"
      "BP_inv I W S bp1" "entry_of C bp1 a = Some e1" "tb_state e1 = WeaklyNotTaken"
      "BP_is_taken (BPEntryTwoBit cold) C bp1 a = Inr False"
    by auto
  from TwoBit_step [OF c 1(2,3), of cold True tgb] 1(4) obtain bp2 e2 where
    2: "BP_update (BPEntryTwoBit cold) C bp1 \<lparr>pc = a, is_taken = True, target = tgb\<rparr> = Inr bp2"
      "BP_inv I W S bp2" "entry_of C bp2 a = Some e2" "tb_state e2 = WeaklyTaken"
      "BP_is_taken (BPEntryTwoBit cold) C bp2 a = Inr True"
    by auto
  from TwoBit_step [OF c 2(2,3), of cold True tgc] 2(4) obtain bp3 e3 where
    3: "BP_update (BPEntryTwoBit cold) C bp2 \<lparr>pc = a, is_taken = True, target = tgc\<rparr> = Inr bp3"
      "BP_inv I W S bp3" "entry_of C bp3 a = Some e3" "tb_state e3 = StronglyTaken"
      "BP_is_taken (BPEntryTwoBit cold) C bp3 a = Inr True"
    by auto
  from TwoBit_step [OF c 3(2,3), of cold True tgd] 3(4) obtain bp4 e4 where
    4: "BP_update (BPEntryTwoBit cold) C bp3 \<lparr>pc = a, is_taken = True, target = tgd\<rparr> = Inr bp4"
      "BP_inv I W S bp4" "entry_of C bp4 a = Some e4" "tb_state e4 = StronglyTaken"
      "BP_is_taken (BPEntryTwoBit cold) C bp4 a = Inr True"
    by auto
  from TwoBit_step [OF c 4(2,3), of cold False tge] 4(4) obtain bp5 e5 where
    5: "BP_update (BPEntryTwoBit cold) C bp4 \<lparr>pc = a, is_taken = False, target = tge\<rparr> = Inr bp5"
      "BP_inv I W S bp5" "entry_of C bp5 a = Some e5" "tb_state e5 = WeaklyTaken"
      "BP_is_taken (BPEntryTwoBit cold) C bp5 a = Inr True"
    by auto
  from 1 2 3 4 5
  show "\<exists>bp1 bp2 bp3 bp4 bp5 e1 e2 e3 e4 e5.
          BP_update (BPEntryTwoBit cold) C bp \<lparr>pc = a, is_taken = True, target = tga\<rparr> = Inr bp1 \<and>
          entry_of C bp1 a = Some e1 \<and> tb_state e1 = WeaklyNotTaken \<and>
          BP_is_taken (BPEntryTwoBit cold) C bp1 a = Inr False \<and>
          BP_update (BPEntryTwoBit cold) C bp1 \<lparr>pc = a, is_taken = True, target = tgb\<rparr> = Inr bp2 \<and>
          entry_of C bp2 a = Some e2 \<and> tb_state e2 = WeaklyTaken \<and>
          BP_is_taken (BPEntryTwoBit cold) C bp2 a = Inr True \<and>
          BP_update (BPEntryTwoBit cold) C bp2 \<lparr>pc = a, is_taken = True, target = tgc\<rparr> = Inr bp3 \<and>
          entry_of C bp3 a = Some e3 \<and> tb_state e3 = StronglyTaken \<and>
          BP_is_taken (BPEntryTwoBit cold) C bp3 a = Inr True \<and>
          BP_update (BPEntryTwoBit cold) C bp3 \<lparr>pc = a, is_taken = True, target = tgd\<rparr> = Inr bp4 \<and>
          entry_of C bp4 a = Some e4 \<and> tb_state e4 = StronglyTaken \<and>
          BP_is_taken (BPEntryTwoBit cold) C bp4 a = Inr True \<and>
          BP_update (BPEntryTwoBit cold) C bp4 \<lparr>pc = a, is_taken = False, target = tge\<rparr> = Inr bp5 \<and>
          entry_of C bp5 a = Some e5 \<and> tb_state e5 = WeaklyTaken \<and>
          BP_is_taken (BPEntryTwoBit cold) C bp5 a = Inr True"
    by blast
qed

theorem TwoBit_saturating_counter_witness:
  "entry_of LRU twobit_floor_example 12 = Some \<lparr>tb_target = 28, tb_state = StronglyNotTaken\<rparr> \<and>
   is_taken_after TwoBit_example LRU twobit_floor_example
     [Call_update upd_example, Call_update upd_example, Call_update upd_example] 12 = Inr True \<and>
   (\<exists>bp3 e3. BP_run TwoBit_example LRU twobit_floor_example
        [Call_update upd_example, Call_update upd_example, Call_update upd_example] = Inr bp3 \<and>
      entry_of LRU bp3 12 = Some e3 \<and> tb_state e3 = StronglyTaken)"
proof -
  have e: "entry_of LRU twobit_floor_example 12 = Some \<lparr>tb_target = 28, tb_state = StronglyNotTaken\<rparr>"
    by code_simp
  have s: "tb_state \<lparr>tb_target = 28 :: 32 word, tb_state = StronglyNotTaken\<rparr> = StronglyNotTaken"
    by simp
  note th = TwoBit_saturating_counter [where C = LRU and cold = "cold_TwoBit cold_example"
      and bp = twobit_floor_example and a = 12 and tga = 28 and tgb = 28 and tgc = 28,
      THEN conjunct2, THEN conjunct2, THEN conjunct2, THEN conjunct2, THEN conjunct2,
      THEN mp, THEN mp, THEN mp, THEN mp, OF LRU_contract twobit_floor_example_inv e s]
  from th obtain bp1 bp2 bp3 e3 where
    r: "BP_update TwoBit_example LRU twobit_floor_example upd_example = Inr bp1"
      "BP_update TwoBit_example LRU bp1 upd_example = Inr bp2"
      "BP_update TwoBit_example LRU bp2 upd_example = Inr bp3"
      "entry_of LRU bp3 12 = Some e3" "tb_state e3 = StronglyTaken"
      "BP_is_taken TwoBit_example LRU bp3 12 = Inr True"
    unfolding TwoBit_example_def [symmetric] upd_example_def [symmetric] by blast
  from r have run: "BP_run TwoBit_example LRU twobit_floor_example
        [Call_update upd_example, Call_update upd_example, Call_update upd_example] = Inr bp3"
    by simp
  with r e show ?thesis by (simp add: is_taken_after_def)
qed

end
